theory Spec2Isabelle
  imports Main "HOL-Library.Sublist" "HOL-Library.AList" "HOL-Library.Monad_Syntax"
begin

section \<open>Go library functions used by the executor\<close>

text \<open>
  Go strings are byte sequences; \<open>string\<close> (a list of 8-bit characters) models them
  byte for byte. The functions below are the ones of packages \<open>strings\<close> and
  \<open>path/filepath\<close> (Unix) that the plan executor calls.
\<close>

definition HasPrefix :: "string \<Rightarrow> string \<Rightarrow> bool" where
  "HasPrefix s p = prefix p s"

definition Contains :: "string \<Rightarrow> string \<Rightarrow> bool" where
  "Contains s substr = sublist substr s"

definition TrimSuffix :: "string \<Rightarrow> string \<Rightarrow> string" where
  "TrimSuffix s suf = (if suffix suf s then take (length s - length suf) s else s)"

text \<open>\<open>strings.Split(s, "\n")\<close>: the pieces between separator bytes, at least one piece.\<close>

fun split_acc :: "char \<Rightarrow> string \<Rightarrow> string \<Rightarrow> string list" where
  "split_acc c acc [] = [rev acc]"
| "split_acc c acc (x # xs) =
     (if x = c then rev acc # split_acc c [] xs else split_acc c (x # acc) xs)"

definition Split :: "string \<Rightarrow> char \<Rightarrow> string list" where
  "Split s c = split_acc c [] s"

text \<open>
  \<open>strings.TrimSpace\<close> removes leading and trailing Unicode white space. On the UTF-8
  bytes of a Go string these are the following byte sequences (the six ASCII ones, U+0085,
  U+00A0, U+1680, U+2000 to U+200A, U+2028, U+2029, U+202F, U+205F, U+3000).
\<close>

definition space_runes :: "string list" where
  "space_runes =
     [[CHR 0x09], [CHR 0x0A], [CHR 0x0B], [CHR 0x0C], [CHR 0x0D], [CHR 0x20],
      [CHR 0xC2, CHR 0x85], [CHR 0xC2, CHR 0xA0], [CHR 0xE1, CHR 0x9A, CHR 0x80],
      [CHR 0xE2, CHR 0x80, CHR 0x80], [CHR 0xE2, CHR 0x80, CHR 0x81],
      [CHR 0xE2, CHR 0x80, CHR 0x82], [CHR 0xE2, CHR 0x80, CHR 0x83],
      [CHR 0xE2, CHR 0x80, CHR 0x84], [CHR 0xE2, CHR 0x80, CHR 0x85],
      [CHR 0xE2, CHR 0x80, CHR 0x86], [CHR 0xE2, CHR 0x80, CHR 0x87],
      [CHR 0xE2, CHR 0x80, CHR 0x88], [CHR 0xE2, CHR 0x80, CHR 0x89],
      [CHR 0xE2, CHR 0x80, CHR 0x8A], [CHR 0xE2, CHR 0x80, CHR 0xA8],
      [CHR 0xE2, CHR 0x80, CHR 0xA9], [CHR 0xE2, CHR 0x80, CHR 0xAF],
      [CHR 0xE2, CHR 0x81, CHR 0x9F], [CHR 0xE3, CHR 0x80, CHR 0x80]]"

fun trim_runes :: "string list \<Rightarrow> string \<Rightarrow> string" where
  "trim_runes rs [] = []"
| "trim_runes rs (c # cs) =
     (case find (\<lambda>r. r \<noteq> [] \<and> prefix r (c # cs)) rs of
        None \<Rightarrow> c # cs
      | Some r \<Rightarrow> trim_runes rs (drop (length r - 1) cs))"

definition TrimSpace :: "string \<Rightarrow> string" where
  "TrimSpace s = rev (trim_runes (map rev space_runes) (rev (trim_runes space_runes s)))"

text \<open>
  \<open>filepath.Clean\<close> on Unix: collapse repeated separators, drop \<open>.\<close> elements, cancel
  an inner \<open>..\<close> against the element before it, drop \<open>..\<close> at the root; the empty
  result is \<open>.\<close>.
\<close>

fun clean_elems :: "bool \<Rightarrow> string list \<Rightarrow> string list \<Rightarrow> string list" where
  "clean_elems rooted out [] = rev out"
| "clean_elems rooted out (e # es) =
     (if e = [] \<or> e = ''.'' then clean_elems rooted out es
      else if e = ''..'' then
        (case out of
           [] \<Rightarrow> if rooted then clean_elems rooted [] es else clean_elems rooted [''..''] es
         | p # ps \<Rightarrow>
             if p = ''..'' then clean_elems rooted (''..'' # p # ps) es
             else clean_elems rooted ps es)
      else clean_elems rooted (e # out) es)"

fun join_slash :: "string list \<Rightarrow> string" where
  "join_slash [] = []"
| "join_slash [e] = e"
| "join_slash (e # es) = e @ ''/'' @ join_slash es"

definition Clean :: "string \<Rightarrow> string" where
  "Clean p =
     (let rooted = HasPrefix p ''/'';
          body = join_slash (clean_elems rooted [] (Split p (CHR ''/'')));
          r = (if rooted then ''/'' @ body else body)
      in if r = [] then ''.'' else r)"

text \<open>\<open>filepath.Dir\<close>: everything up to the last separator, cleaned.\<close>

definition Dir :: "string \<Rightarrow> string" where
  "Dir p = Clean (rev (dropWhile (\<lambda>c. c \<noteq> CHR ''/'') (rev p)))"

text \<open>\<open>filepath.Base\<close>: the last element, trailing separators removed first.\<close>

definition Base :: "string \<Rightarrow> string" where
  "Base p =
     (if p = [] then ''.''
      else let q = rev (dropWhile (\<lambda>c. c = CHR ''/'') (rev p));
               b = rev (takeWhile (\<lambda>c. c \<noteq> CHR ''/'') (rev q))
           in if b = [] then ''/'' else b)"

text \<open>\<open>%d\<close> of \<open>fmt.Sprintf\<close> for the non-negative numbers the executor prints.\<close>

fun decimal :: "nat \<Rightarrow> string" where
  "decimal n =
     (if n < 10 then [char_of (n + 48)]
      else decimal (n div 10) @ [char_of (n mod 10 + 48)])"


section \<open>Data model\<close>

text \<open>The types of \<open>plan_types.go\<close> and \<open>project_state.go\<close>. Field names carry the
  name of their struct, since several structs have fields of the same name.\<close>

type_synonym AgentType = string

text \<open>A \<open>time.Time\<close> is an abstract instant.\<close>

type_synonym time = nat

text \<open>A Go \<open>map[string][]string\<close>, in the order a \<open>range\<close> loop visits it; \<open>None\<close> is
  the nil map.\<close>

type_synonym dirmap = "(string \<times> string list) list"

datatype PhaseStatus =
    PhaseStatusPending
  | PhaseStatusInProgress
  | PhaseStatusCompleted
  | PhaseStatusFailed
  | PhaseStatusSkipped

datatype ExecutionStatus =
    ExecutionStatusPending
  | ExecutionStatusApproved
  | ExecutionStatusRunning
  | ExecutionStatusCompleted
  | ExecutionStatusFailed
  | ExecutionStatusCancelled

record Task =
  Task_ID :: string
  Task_Description :: string
  Task_Completed :: bool
  Task_Result :: string
  Task_Error :: string

record Phase =
  Phase_ID :: string
  Phase_Name :: string
  Phase_Agent :: AgentType
  Phase_Tasks :: "Task list"
  Phase_SuccessCriteria :: string
  Phase_EstimatedTime :: string
  Phase_Dependencies :: "string list"
  Phase_Status :: PhaseStatus

record ExecutionState =
  State_Status :: ExecutionStatus
  State_CurrentPhase :: int
  State_CompletedPhases :: "int list"
  State_FailedPhases :: "int list"
  State_LastCheckpoint :: string
  State_StartedAt :: "time option"
  State_CompletedAt :: "time option"

record FileEntry =
  File_Path :: string
  File_Phase :: string
  File_Purpose :: string
  File_Size :: int
  File_CreatedAt :: time

text \<open>
  \<open>SetExpectedStructure\<close> stores the plan's own map in the manifest, so the two fields
  then name one map and \<open>AddFile\<close> writes to both. The manifest's field is therefore
  either a map of its own or a reference to the map of the plan.
\<close>

datatype StructureRef = OwnStructure "dirmap option" | PlanStructure

record ProjectManifest =
  Manifest_ProjectName :: string
  Manifest_BaseDir :: string
  Manifest_CreatedFiles :: "FileEntry list"
  Manifest_FileStructure :: StructureRef

record ExecutionPlan =
  Plan_ID :: string
  Plan_Title :: string
  Plan_Description :: string
  Plan_FileStructure :: "dirmap option"
  Plan_Phases :: "Phase list"
  Plan_State :: ExecutionState
  Plan_Manifest :: "ProjectManifest option"
  Plan_CreatedAt :: time
  Plan_UpdatedAt :: time

record Checkpoint =
  Checkpoint_ID :: string
  Checkpoint_PlanID :: string
  Checkpoint_PhaseIndex :: int
  Checkpoint_Timestamp :: time
  Checkpoint_GitStash :: string
  Checkpoint_Metadata :: "(string \<times> string) list"

text \<open>A registered agent, as far as the executor looks at it.\<close>

record Agent =
  Agent_Name :: string
  Agent_Type :: AgentType

text \<open>The executor: the agents \<open>GetAgents\<close> returns, in the order it returns them, and
  the checkpoints made so far, by id.\<close>

record Executor =
  Executor_agents :: "Agent list"
  Executor_checkpoints :: "(string \<times> Checkpoint) list"

datatype error =
    ErrAgentNotFound AgentType
  | ErrAgentExecute string
  | ErrCreateDirectory string
  | ErrWrite string
  | ErrExecute string
  | ErrDependenciesNotMet string
  | ErrPhaseFailed int error
  | ErrReadFile string
  | ErrUnmarshal
  | PanicIndexOutOfRange int
  | PanicNilMap

section \<open>The world outside the program\<close>

text \<open>
  What the executor does to the world is recorded as a trace of events, oldest first.
  \<open>PhaseStarted i\<close> is the banner printed for phase \<open>i\<close> just before \<open>executePhase\<close>
  is called on it. The outcome of each action is not decided by the program: the file
  system, the shell, the agent, the clock and the regular-expression engine are functions
  of the trace so far, and every theorem holds for all of them.
\<close>

datatype event =
    MkdirAll string bool
  | WriteFile string string bool
  | BashRun string bool
  | AgentExecute AgentType string bool
  | PhaseStarted nat
  | Rollback string

type_synonym trace = "event list"

record env =
  FindAllStringSubmatch :: "string \<Rightarrow> string \<Rightarrow> string list list"
  mkdir_ok :: "trace \<Rightarrow> string \<Rightarrow> bool"
  write_ok :: "trace \<Rightarrow> string \<Rightarrow> string \<Rightarrow> bool"
  bash_ok :: "trace \<Rightarrow> string \<Rightarrow> bool"
  stat_size :: "trace \<Rightarrow> string \<Rightarrow> int"
  agent_reply :: "trace \<Rightarrow> Agent \<Rightarrow> ExecutionPlan \<Rightarrow> Phase \<Rightarrow> string + string"
  time_Now :: "trace \<Rightarrow> time"

section \<open>Shell commands of an agent answer\<close>

definition backticks :: string where
  "backticks = [CHR 0x60, CHR 0x60, CHR 0x60]"

definition command_pattern :: string where
  "command_pattern =
     ''(?m)^'' @ backticks @ ''(bash|sh|shell)'' @ [CHR 0x5C] @ ''s*'' @ [CHR 0x5C] @ ''n(['' @
     [CHR 0x5C] @ ''s'' @ [CHR 0x5C] @ ''S]*?)^'' @ backticks"

definition dangerous :: "string list" where
  "dangerous = [''rm -rf /'', ''rm -rf ~'', '':(){ :|:& };:'']"

definition isDangerousCommand :: "string \<Rightarrow> bool" where
  "isDangerousCommand cmd = list_ex (\<lambda>d. Contains cmd d) dangerous"

text \<open>The inner loop of \<open>processCommandBlocks\<close>, over the lines of one block. The state is
  the trace and \<open>commandsExecuted\<close>; an error ends the whole function.\<close>

fun processCommandLines ::
  "env \<Rightarrow> string list \<Rightarrow> trace \<times> string list \<Rightarrow> error option \<times> trace \<times> string list" where
  "processCommandLines E [] (tr, done) = (None, tr, done)"
| "processCommandLines E (l # ls) (tr, done) =
     (let cmdStr = TrimSpace l in
      if cmdStr = [] \<or> HasPrefix cmdStr ''#'' then processCommandLines E ls (tr, done)
      else if isDangerousCommand cmdStr then processCommandLines E ls (tr, done)
      else if bash_ok E tr cmdStr
        then processCommandLines E ls (tr @ [BashRun cmdStr True], done @ [cmdStr])
        else (Some (ErrExecute cmdStr), tr @ [BashRun cmdStr False], done))"

text \<open>The outer loop, over the matches of the pattern.\<close>

fun processCommandMatches ::
  "env \<Rightarrow> string list list \<Rightarrow> trace \<times> string list \<Rightarrow> error option \<times> trace \<times> string list" where
  "processCommandMatches E [] (tr, done) = (None, tr, done)"
| "processCommandMatches E (m # ms) (tr, done) =
     (if length m < 3 then processCommandMatches E ms (tr, done)
      else let script = TrimSpace (m ! 2) in
        if script = [] then processCommandMatches E ms (tr, done)
        else (case processCommandLines E (Split script (CHR 0x0A)) (tr, done) of
                (Some e, st) \<Rightarrow> (Some e, st)
              | (None, st) \<Rightarrow> processCommandMatches E ms st))"

text \<open>\<open>processCommandBlocks\<close> returns \<open>commandsExecuted\<close> and the error, and leaves the
  trace behind.\<close>

definition processCommandBlocks ::
  "env \<Rightarrow> string \<Rightarrow> trace \<Rightarrow> string list \<times> error option \<times> trace" where
  "processCommandBlocks E response tr =
     (case processCommandMatches E (FindAllStringSubmatch E command_pattern response) (tr, []) of
        (err, tr', done) \<Rightarrow> (done, err, tr'))"


section \<open>Project manifest\<close>

definition NewProjectManifest :: "string \<Rightarrow> string \<Rightarrow> ProjectManifest" where
  "NewProjectManifest projectName baseDir =
     \<lparr>Manifest_ProjectName = projectName, Manifest_BaseDir = baseDir,
      Manifest_CreatedFiles = [], Manifest_FileStructure = OwnStructure (Some [])\<rparr>"

definition FileExists :: "ProjectManifest \<Rightarrow> string \<Rightarrow> bool" where
  "FileExists m path = list_ex (\<lambda>f. File_Path f = path) (Manifest_CreatedFiles m)"

text \<open>\<open>m[dir] = append(m[dir], name)\<close> on a map that is not nil; a new key is visited last.\<close>

fun dirmap_append :: "dirmap \<Rightarrow> string \<Rightarrow> string \<Rightarrow> dirmap" where
  "dirmap_append [] dir name = [(dir, [name])]"
| "dirmap_append ((d, names) # rest) dir name =
     (if d = dir then (d, names @ [name]) # rest else (d, names) # dirmap_append rest dir name)"

text \<open>
  \<open>AddFile\<close> on the manifest \<open>m\<close> of the plan. The entry is appended first; the write to
  the directory map comes last and panics on a nil map. The map is the plan's own when
  the manifest refers to it.
\<close>

definition AddFile ::
  "env \<Rightarrow> trace \<Rightarrow> string \<Rightarrow> string \<Rightarrow> string \<Rightarrow> ExecutionPlan \<Rightarrow> ProjectManifest
     \<Rightarrow> error option \<times> ExecutionPlan" where
  "AddFile E tr path phase purpose plan m =
     (let entry = \<lparr>File_Path = path, File_Phase = phase, File_Purpose = purpose,
                   File_Size = stat_size E tr path, File_CreatedAt = time_Now E tr\<rparr>;
          m1 = m\<lparr>Manifest_CreatedFiles := Manifest_CreatedFiles m @ [entry]\<rparr>;
          d = Dir path;
          dir = (if d = [] \<or> d = ''.'' then Manifest_BaseDir m else d)
      in case Manifest_FileStructure m of
           OwnStructure None \<Rightarrow> (Some PanicNilMap, plan\<lparr>Plan_Manifest := Some m1\<rparr>)
         | OwnStructure (Some fs) \<Rightarrow>
             (None, plan\<lparr>Plan_Manifest := Some (m1\<lparr>Manifest_FileStructure :=
                OwnStructure (Some (dirmap_append fs dir (Base path)))\<rparr>)\<rparr>)
         | PlanStructure \<Rightarrow>
             (case Plan_FileStructure plan of
                None \<Rightarrow> (Some PanicNilMap, plan\<lparr>Plan_Manifest := Some m1\<rparr>)
              | Some fs \<Rightarrow>
                  (None, plan\<lparr>Plan_Manifest := Some m1,
                     Plan_FileStructure := Some (dirmap_append fs dir (Base path))\<rparr>)))"

section \<open>Files of an agent answer\<close>

definition file_patterns :: "string list" where
  "file_patterns =
     [''(?s)'' @ backticks @ ''('' @ [CHR 0x5C] @ ''w+)'' @ [CHR 0x5C] @ ''s+(['' @ [CHR 0x5C] @
        ''w./-]+)'' @ [CHR 0x5C] @ ''s*'' @ [CHR 0x0A] @ ''(.*?)'' @ backticks,
      ''(?s)'' @ backticks @ ''('' @ [CHR 0x5C] @ ''w+)'' @ [CHR 0x5C] @ ''s*'' @ [CHR 0x0A] @
        ''#'' @ [CHR 0x5C] @ ''s*(['' @ [CHR 0x5C] @ ''w./-]+)'' @ [CHR 0x5C] @ ''s*'' @
        [CHR 0x0A] @ ''(.*?)'' @ backticks]"

text \<open>The body of the inner loop of \<open>processFileBlocks\<close>, for one match. The state is the
  plan (for its manifest), the trace and \<open>filesCreated\<close>. \<open>None\<close> goes on with the next
  match; an error ends the whole function.\<close>

definition processFileMatch ::
  "env \<Rightarrow> string \<Rightarrow> string list \<Rightarrow> ExecutionPlan \<times> trace \<times> string list
     \<Rightarrow> error option \<times> ExecutionPlan \<times> trace \<times> string list" where
  "processFileMatch E phaseName match st =
     (case st of (plan, tr, created) \<Rightarrow>
      if length match < 4 then (None, plan, tr, created)
      else let filename = TrimSpace (match ! 2); content = TrimSpace (match ! 3) in
      if content = [] then (None, plan, tr, created)
      else let cleanPath = Clean filename in
      if HasPrefix cleanPath ''..'' \<or> HasPrefix cleanPath ''/'' then (None, plan, tr, created)
      else if (case Plan_Manifest plan of None \<Rightarrow> False | Some m \<Rightarrow> FileExists m cleanPath)
        then (None, plan, tr, created)
      else let dir = Dir cleanPath; mk = (dir \<noteq> ''.'' \<and> dir \<noteq> []) in
      if mk \<and> \<not> mkdir_ok E tr dir
        then (Some (ErrCreateDirectory filename), plan, tr @ [MkdirAll dir False], created)
      else let tr1 = (if mk then tr @ [MkdirAll dir True] else tr) in
      if \<not> write_ok E tr1 cleanPath content
        then (Some (ErrWrite filename), plan, tr1 @ [WriteFile cleanPath content False], created)
      else let tr2 = tr1 @ [WriteFile cleanPath content True] in
      (case Plan_Manifest plan of
         None \<Rightarrow> (None, plan, tr2, created @ [cleanPath])
       | Some m \<Rightarrow>
           (case AddFile E tr2 cleanPath phaseName [] plan m of
              (Some e, plan') \<Rightarrow> (Some e, plan', tr2, created)
            | (None, plan') \<Rightarrow> (None, plan', tr2, created @ [cleanPath]))))"

fun processFileMatches ::
  "env \<Rightarrow> string \<Rightarrow> string list list \<Rightarrow> ExecutionPlan \<times> trace \<times> string list
     \<Rightarrow> error option \<times> ExecutionPlan \<times> trace \<times> string list" where
  "processFileMatches E phaseName [] st = (None, st)"
| "processFileMatches E phaseName (m # ms) st =
     (case processFileMatch E phaseName m st of
        (Some e, st') \<Rightarrow> (Some e, st')
      | (None, st') \<Rightarrow> processFileMatches E phaseName ms st')"

fun processFilePatterns ::
  "env \<Rightarrow> string \<Rightarrow> string \<Rightarrow> string list \<Rightarrow> ExecutionPlan \<times> trace \<times> string list
     \<Rightarrow> error option \<times> ExecutionPlan \<times> trace \<times> string list" where
  "processFilePatterns E response phaseName [] st = (None, st)"
| "processFilePatterns E response phaseName (pat # pats) st =
     (case processFileMatches E phaseName (FindAllStringSubmatch E pat response) st of
        (Some e, st') \<Rightarrow> (Some e, st')
      | (None, st') \<Rightarrow> processFilePatterns E response phaseName pats st')"

text \<open>\<open>processFileBlocks\<close> returns \<open>filesCreated\<close> and the error; the plan (its manifest) and
  the trace are the state it leaves.\<close>

definition processFileBlocks ::
  "env \<Rightarrow> string \<Rightarrow> ExecutionPlan \<Rightarrow> string \<Rightarrow> trace
     \<Rightarrow> string list \<times> error option \<times> ExecutionPlan \<times> trace" where
  "processFileBlocks E response plan phaseName tr =
     (case processFilePatterns E response phaseName file_patterns (plan, tr, []) of
        (err, plan', tr', created) \<Rightarrow> (created, err, plan', tr'))"


section \<open>Running one phase\<close>

text \<open>A run-time panic is not an error value of the program: nothing handles it, it ends
  \<open>Execute\<close> where it is raised.\<close>

fun is_panic :: "error \<Rightarrow> bool" where
  "is_panic (PanicIndexOutOfRange _) = True"
| "is_panic PanicNilMap = True"
| "is_panic _ = False"

definition markTasks :: "string \<Rightarrow> Phase \<Rightarrow> Phase" where
  "markTasks answer phase =
     phase\<lparr>Phase_Tasks :=
       map (\<lambda>t. t\<lparr>Task_Completed := True, Task_Result := answer\<rparr>) (Phase_Tasks phase)\<rparr>"

text \<open>
  \<open>executePhase\<close> on \<open>&plan.Phases[i]\<close>. The prompt of \<open>buildPhaseQuery\<close> is a function of
  the plan and the phase, which the agent receives here in its place. The errors of
  \<open>processFileBlocks\<close> and \<open>processCommandBlocks\<close> are printed as warnings and dropped.
\<close>

definition executePhase ::
  "env \<Rightarrow> Executor \<Rightarrow> ExecutionPlan \<Rightarrow> nat \<Rightarrow> trace \<Rightarrow> error option \<times> ExecutionPlan \<times> trace" where
  "executePhase E ex plan i tr =
     (let phase = (Plan_Phases plan ! i)\<lparr>Phase_Status := PhaseStatusInProgress\<rparr>;
          plan1 = plan\<lparr>Plan_Phases := (Plan_Phases plan)[i := phase]\<rparr>
      in case find (\<lambda>a. Agent_Type a = Phase_Agent phase) (Executor_agents ex) of
           None \<Rightarrow> (Some (ErrAgentNotFound (Phase_Agent phase)), plan1, tr)
         | Some targetAgent \<Rightarrow>
             let requestID = Plan_ID plan @ ''-phase-'' @ Phase_ID phase in
             (case agent_reply E tr targetAgent plan1 phase of
                Inl msg \<Rightarrow>
                  (Some (ErrAgentExecute msg), plan1,
                   tr @ [AgentExecute (Agent_Type targetAgent) requestID False])
              | Inr answer \<Rightarrow>
                  (case processFileBlocks E answer plan1 (Phase_Name phase)
                          (tr @ [AgentExecute (Agent_Type targetAgent) requestID True]) of
                     (filesCreated, ferr, plan2, tr2) \<Rightarrow>
                       if (case ferr of None \<Rightarrow> False | Some e \<Rightarrow> is_panic e)
                       then (ferr, plan2, tr2)
                       else (case processCommandBlocks E answer tr2 of
                               (commandsExecuted, cerr, tr3) \<Rightarrow>
                                 (None,
                                  plan2\<lparr>Plan_Phases := (Plan_Phases plan2)
                                     [i := markTasks answer (Plan_Phases plan2 ! i)]\<rparr>,
                                  tr3)))))"

section \<open>Dependencies, checkpoints, project directories\<close>

text \<open>The inner loop of \<open>areDependenciesMet\<close>: is \<open>depID\<close> the id or the name of a completed
  phase? \<open>plan.Phases[completedIdx]\<close> panics when the index is out of range.\<close>

fun dependencyCompleted :: "Phase list \<Rightarrow> string \<Rightarrow> int list \<Rightarrow> error + bool" where
  "dependencyCompleted phases depID [] = Inr False"
| "dependencyCompleted phases depID (completedIdx # rest) =
     (if completedIdx < 0 \<or> int (length phases) \<le> completedIdx
        then Inl (PanicIndexOutOfRange completedIdx)
      else let completedPhase = phases ! nat completedIdx in
        if Phase_ID completedPhase = depID \<or> Phase_Name completedPhase = depID then Inr True
        else dependencyCompleted phases depID rest)"

fun dependenciesCompleted :: "ExecutionPlan \<Rightarrow> string list \<Rightarrow> error + bool" where
  "dependenciesCompleted plan [] = Inr True"
| "dependenciesCompleted plan (depID # deps) =
     (case dependencyCompleted (Plan_Phases plan) depID
             (State_CompletedPhases (Plan_State plan)) of
        Inl e \<Rightarrow> Inl e
      | Inr depCompleted \<Rightarrow>
          if \<not> depCompleted then Inr False else dependenciesCompleted plan deps)"

definition areDependenciesMet :: "ExecutionPlan \<Rightarrow> Phase \<Rightarrow> error + bool" where
  "areDependenciesMet plan phase =
     (if length (Phase_Dependencies phase) = 0 then Inr True
      else dependenciesCompleted plan (Phase_Dependencies phase))"

definition createCheckpoint ::
  "env \<Rightarrow> trace \<Rightarrow> Executor \<Rightarrow> string \<Rightarrow> int \<Rightarrow> Checkpoint \<times> Executor" where
  "createCheckpoint E tr ex planID phaseIndex =
     (let checkpoint =
            \<lparr>Checkpoint_ID = ''checkpoint-'' @ planID @ ''-phase-'' @ decimal (nat phaseIndex),
             Checkpoint_PlanID = planID, Checkpoint_PhaseIndex = phaseIndex,
             Checkpoint_Timestamp = time_Now E tr, Checkpoint_GitStash = [],
             Checkpoint_Metadata = []\<rparr>
      in (checkpoint,
          ex\<lparr>Executor_checkpoints :=
            AList.update (Checkpoint_ID checkpoint) checkpoint (Executor_checkpoints ex)\<rparr>))"

text \<open>\<open>rollback\<close> only prints the checkpoint's id and never fails.\<close>

definition rollback :: "Checkpoint \<Rightarrow> trace \<Rightarrow> error option \<times> trace" where
  "rollback checkpoint tr = (None, tr @ [Rollback (Checkpoint_ID checkpoint)])"

fun initDirectories :: "env \<Rightarrow> string list \<Rightarrow> trace \<Rightarrow> error option \<times> trace" where
  "initDirectories E [] tr = (None, tr)"
| "initDirectories E (dir # dirs) tr =
     (if dir = ''.'' \<or> dir = [] then initDirectories E dirs tr
      else let cleanDir = TrimSuffix dir ''/'' in
        if mkdir_ok E tr cleanDir then initDirectories E dirs (tr @ [MkdirAll cleanDir True])
        else (Some (ErrCreateDirectory cleanDir), tr @ [MkdirAll cleanDir False]))"

definition initProjectStructure :: "env \<Rightarrow> ExecutionPlan \<Rightarrow> trace \<Rightarrow> error option \<times> trace" where
  "initProjectStructure E plan tr =
     (case Plan_FileStructure plan of
        None \<Rightarrow> (None, tr)
      | Some fs \<Rightarrow> if length fs = 0 then (None, tr) else initDirectories E (map fst fs) tr)"

section \<open>Execute\<close>

text \<open>The statements of \<open>Execute\<close> before its loop.\<close>

definition Execute_startup :: "env \<Rightarrow> ExecutionPlan \<Rightarrow> trace \<Rightarrow> ExecutionPlan \<times> trace" where
  "Execute_startup E plan tr =
     (let now = time_Now E tr;
          st = Plan_State plan;
          st1 = st\<lparr>State_Status := ExecutionStatusRunning,
                   State_StartedAt :=
                     (case State_StartedAt st of None \<Rightarrow> Some now | Some t \<Rightarrow> Some t),
                   State_CurrentPhase :=
                     (if State_CurrentPhase st < 0 then 0 else State_CurrentPhase st)\<rparr>;
          plan1 = plan\<lparr>Plan_State := st1\<rparr>;
          plan2 =
            (case Plan_Manifest plan1 of
               Some m \<Rightarrow> plan1
             | None \<Rightarrow>
                 plan1\<lparr>Plan_Manifest := Some
                   (case Plan_FileStructure plan1 of
                      None \<Rightarrow> NewProjectManifest (Plan_Title plan1) ''.''
                    | Some fs \<Rightarrow> (NewProjectManifest (Plan_Title plan1) ''.'')
                        \<lparr>Manifest_FileStructure := PlanStructure\<rparr>)\<rparr>)
      in (plan2, snd (initProjectStructure E plan2 tr)))"

text \<open>The body of the loop for phase \<open>i\<close>. \<open>Some e\<close> is \<open>return e\<close>; \<open>None\<close> goes on with
  the next phase.\<close>

definition executeIteration ::
  "env \<Rightarrow> nat \<Rightarrow> ExecutionPlan \<times> Executor \<times> trace
     \<Rightarrow> error option \<times> ExecutionPlan \<times> Executor \<times> trace" where
  "executeIteration E i s =
     (case s of (plan, ex, tr) \<Rightarrow>
      let phase = Plan_Phases plan ! i in
      case areDependenciesMet plan phase of
        Inl e \<Rightarrow> (Some e, plan, ex, tr)
      | Inr met \<Rightarrow>
          if \<not> met then (Some (ErrDependenciesNotMet (Phase_Name phase)), plan, ex, tr)
          else
            (case createCheckpoint E tr ex (Plan_ID plan) (int i) of
               (checkpoint, ex1) \<Rightarrow>
                 (case executePhase E ex1 plan i (tr @ [PhaseStarted i]) of
                    (Some err, plan1, tr1) \<Rightarrow>
                      if is_panic err then (Some err, plan1, ex1, tr1)
                      else
                        (case rollback checkpoint tr1 of
                           (Some rollbackErr, tr2) \<Rightarrow> (Some rollbackErr, plan1, ex1, tr2)
                         | (None, tr2) \<Rightarrow>
                             (Some (ErrPhaseFailed (int i + 1) err),
                              plan1\<lparr>Plan_State := (Plan_State plan1)
                                \<lparr>State_Status := ExecutionStatusFailed,
                                 State_FailedPhases :=
                                   State_FailedPhases (Plan_State plan1) @ [int i]\<rparr>\<rparr>,
                              ex1, tr2))
                  | (None, plan1, tr1) \<Rightarrow>
                      (None,
                       plan1\<lparr>Plan_State := (Plan_State plan1)
                           \<lparr>State_CompletedPhases :=
                              State_CompletedPhases (Plan_State plan1) @ [int i],
                            State_CurrentPhase := int i + 1\<rparr>,
                         Plan_Phases := (Plan_Phases plan1)
                           [i := (Plan_Phases plan1 ! i)\<lparr>Phase_Status := PhaseStatusCompleted\<rparr>]\<rparr>,
                       ex1, tr1))))"

text \<open>The loop \<open>for i := plan.State.CurrentPhase; i < len(plan.Phases); i++\<close>, given the
  indices it still has to visit.\<close>

fun executeLoop ::
  "env \<Rightarrow> nat list \<Rightarrow> ExecutionPlan \<times> Executor \<times> trace
     \<Rightarrow> error option \<times> ExecutionPlan \<times> Executor \<times> trace" where
  "executeLoop E [] s = (None, s)"
| "executeLoop E (i # is) s =
     (case executeIteration E i s of
        (Some e, s') \<Rightarrow> (Some e, s')
      | (None, s') \<Rightarrow> executeLoop E is s')"

definition phaseRange :: "ExecutionPlan \<Rightarrow> nat list" where
  "phaseRange plan = [nat (State_CurrentPhase (Plan_State plan)) ..< length (Plan_Phases plan)]"

text \<open>\<open>Execute\<close>: the error it returns (\<open>None\<close> is \<open>nil\<close>), and the plan, the executor and
  the trace it leaves.\<close>

definition Execute ::
  "env \<Rightarrow> Executor \<Rightarrow> ExecutionPlan \<Rightarrow> trace
     \<Rightarrow> error option \<times> ExecutionPlan \<times> Executor \<times> trace" where
  "Execute E ex plan tr =
     (case Execute_startup E plan tr of
        (plan0, tr0) \<Rightarrow>
          (case executeLoop E (phaseRange plan0) (plan0, ex, tr0) of
             (Some e, s) \<Rightarrow> (Some e, s)
           | (None, plan1, ex1, tr1) \<Rightarrow>
               (None,
                plan1\<lparr>Plan_State := (Plan_State plan1)
                  \<lparr>State_Status := ExecutionStatusCompleted,
                   State_CompletedAt := Some (time_Now E tr1)\<rparr>\<rparr>,
                ex1, tr1)))"

text \<open>The plan as it stands after the loop has gone through at most \<open>k\<close> phases: the
  moments at which the state can be observed between two phases.\<close>

definition Execute_upto ::
  "env \<Rightarrow> nat \<Rightarrow> Executor \<Rightarrow> ExecutionPlan \<Rightarrow> trace
     \<Rightarrow> error option \<times> ExecutionPlan \<times> Executor \<times> trace" where
  "Execute_upto E k ex plan tr =
     (case Execute_startup E plan tr of
        (plan0, tr0) \<Rightarrow> executeLoop E (take k (phaseRange plan0)) (plan0, ex, tr0))"

section \<open>Saving and loading the state of a plan\<close>

text \<open>
  \<open>SavePlanState\<close> writes \<open>json.MarshalIndent(plan)\<close> to a file and \<open>LoadPlanState\<close> reads
  it back with \<open>json.Unmarshal\<close>. The model follows \<open>encoding/json\<close> on the struct tags of
  \<open>plan_types.go\<close> at the level of JSON values: a file holds the JSON value whose indented
  text was written to it. A timestamp is the JSON string of its instant, kept as \<open>JTime\<close>.
\<close>

datatype json =
    JNull
  | JBool bool
  | JNumber int
  | JString string
  | JTime time
  | JArray "json list"
  | JObject "(string \<times> json) list"

text \<open>
  The encoder writes a string as valid UTF-8: every byte that does not start a well-formed
  sequence becomes U+FFFD. \<open>utf8_len\<close> is the length of the well-formed sequence at the
  head of a list of byte values, 0 if there is none.
\<close>

definition cont :: "nat \<Rightarrow> bool" where
  "cont b = (0x80 \<le> b \<and> b \<le> 0xBF)"

fun utf8_len :: "nat list \<Rightarrow> nat" where
  "utf8_len [] = 0"
| "utf8_len [b0] = (if b0 < 0x80 then 1 else 0)"
| "utf8_len [b0, b1] =
     (if b0 < 0x80 then 1 else if 0xC2 \<le> b0 \<and> b0 \<le> 0xDF \<and> cont b1 then 2 else 0)"
| "utf8_len [b0, b1, b2] =
     (if b0 < 0x80 then 1
      else if 0xC2 \<le> b0 \<and> b0 \<le> 0xDF \<and> cont b1 then 2
      else if b0 = 0xE0 \<and> 0xA0 \<le> b1 \<and> b1 \<le> 0xBF \<and> cont b2 then 3
      else if (0xE1 \<le> b0 \<and> b0 \<le> 0xEC \<or> b0 = 0xEE \<or> b0 = 0xEF) \<and> cont b1 \<and> cont b2 then 3
      else if b0 = 0xED \<and> 0x80 \<le> b1 \<and> b1 \<le> 0x9F \<and> cont b2 then 3
      else 0)"
| "utf8_len (b0 # b1 # b2 # b3 # bs) =
     (if b0 < 0x80 then 1
      else if 0xC2 \<le> b0 \<and> b0 \<le> 0xDF \<and> cont b1 then 2
      else if b0 = 0xE0 \<and> 0xA0 \<le> b1 \<and> b1 \<le> 0xBF \<and> cont b2 then 3
      else if (0xE1 \<le> b0 \<and> b0 \<le> 0xEC \<or> b0 = 0xEE \<or> b0 = 0xEF) \<and> cont b1 \<and> cont b2 then 3
      else if b0 = 0xED \<and> 0x80 \<le> b1 \<and> b1 \<le> 0x9F \<and> cont b2 then 3
      else if b0 = 0xF0 \<and> 0x90 \<le> b1 \<and> b1 \<le> 0xBF \<and> cont b2 \<and> cont b3 then 4
      else if 0xF1 \<le> b0 \<and> b0 \<le> 0xF3 \<and> cont b1 \<and> cont b2 \<and> cont b3 then 4
      else if b0 = 0xF4 \<and> 0x80 \<le> b1 \<and> b1 \<le> 0x8F \<and> cont b2 \<and> cont b3 then 4
      else 0)"

fun coerceUTF8 :: "string \<Rightarrow> string" where
  "coerceUTF8 [] = []"
| "coerceUTF8 (c # cs) =
     (let n = utf8_len (map of_char (take 4 (c # cs))) in
      if n = 0 then [CHR 0xEF, CHR 0xBF, CHR 0xBD] @ coerceUTF8 cs
      else take n (c # cs) @ coerceUTF8 (drop (n - 1) cs))"


subsection \<open>Marshal\<close>



definition marshalString :: "string \<Rightarrow> json" where
  "marshalString s = JString (coerceUTF8 s)"







subsection \<open>Unmarshal\<close>

text \<open>
  The decoder starts from the zero value of the struct. A key that is missing, or whose
  value is \<open>null\<close>, leaves its field at zero; when a key is there twice the later one
  counts; a value of the wrong kind is an error (\<open>None\<close>).
\<close>

definition field :: "(string \<times> json) list \<Rightarrow> string \<Rightarrow> (json \<Rightarrow> 'a option) \<Rightarrow> 'a \<Rightarrow> 'a option" where
  "field kvs key dec zero =
     (case map_of (rev kvs) key of None \<Rightarrow> Some zero | Some JNull \<Rightarrow> Some zero | Some v \<Rightarrow> dec v)"






text \<open>An array into a slice; a \<open>null\<close> element leaves the zero value \<open>zero\<close> in its place.\<close>

fun those_list :: "'a option list \<Rightarrow> 'a list option" where
  "those_list [] = Some []"
| "those_list (None # xs) = None"
| "those_list (Some x # xs) = (case those_list xs of None \<Rightarrow> None | Some ys \<Rightarrow> Some (x # ys))"












subsection \<open>The approval workflow's state files\<close>









section \<open>Observations on plans and traces\<close>

text \<open>The paths recorded in the plan's manifest, oldest first.\<close>

definition createdPaths :: "ExecutionPlan \<Rightarrow> string list" where
  "createdPaths plan =
     (case Plan_Manifest plan of
        None \<Rightarrow> []
      | Some m \<Rightarrow> map File_Path (Manifest_CreatedFiles m))"

text \<open>The test of \<open>processFileBlocks\<close> on a cleaned path.\<close>

definition unsafePath :: "string \<Rightarrow> bool" where
  "unsafePath p = (HasPrefix p ''..'' \<or> HasPrefix p ''/'')"

text \<open>The paths of the file writes of a trace: all that were tried, and those that
  succeeded.\<close>

fun attempted :: "trace \<Rightarrow> string list" where
  "attempted [] = []"
| "attempted (WriteFile p c ok # es) = p # attempted es"
| "attempted (e # es) = attempted es"

fun written :: "trace \<Rightarrow> string list" where
  "written [] = []"
| "written (WriteFile p c ok # es) = (if ok then p # written es else written es)"
| "written (e # es) = written es"

text \<open>No file that was written is written to again later in the trace.\<close>

fun no_rewrite :: "trace \<Rightarrow> bool" where
  "no_rewrite [] = True"
| "no_rewrite (WriteFile p c ok # es) = ((\<not> ok \<or> p \<notin> set (attempted es)) \<and> no_rewrite es)"
| "no_rewrite (e # es) = no_rewrite es"

text \<open>The events of a trace that report a failed directory creation, file write or
  command.\<close>

fun failed_io :: "event \<Rightarrow> bool" where
  "failed_io (MkdirAll d ok) = (\<not> ok)"
| "failed_io (WriteFile p c ok) = (\<not> ok)"
| "failed_io (BashRun c ok) = (\<not> ok)"
| "failed_io e = False"

text \<open>The phases on which \<open>executePhase\<close> was called, in order.\<close>

fun started :: "trace \<Rightarrow> nat list" where
  "started [] = []"
| "started (PhaseStarted i # es) = i # started es"
| "started (e # es) = started es"

text \<open>
  How the events \<open>new\<close> that take a plan to a later plan relate to the manifest: every
  write went to a safe path; the manifest is there afterwards if and only if it was there
  before; and when it was there, the paths it gained are the files written, none of the
  writes went to a path it already held, and no file was written twice.
\<close>

definition filesExtend :: "ExecutionPlan \<Rightarrow> ExecutionPlan \<Rightarrow> trace \<Rightarrow> bool" where
  "filesExtend plan plan' new =
     (list_all (\<lambda>p. \<not> unsafePath p) (attempted new) \<and>
      (Plan_Manifest plan' = None \<longleftrightarrow> Plan_Manifest plan = None) \<and>
      (Plan_Manifest plan = None \<or>
         createdPaths plan' = createdPaths plan @ written new \<and>
         list_all (\<lambda>p. p \<notin> set (createdPaths plan)) (attempted new) \<and>
         no_rewrite new))"

text \<open>Events that are neither a file write nor the start of a phase.\<close>

fun plain :: "event \<Rightarrow> bool" where
  "plain (WriteFile p c ok) = False"
| "plain (PhaseStarted i) = False"
| "plain e = True"

text \<open>
  What a part of \<open>processFileBlocks\<close> does, from a state (plan, trace, \<open>filesCreated\<close>) to
  its result: it adds events, starts no phase, keeps to \<open>filesExtend\<close>, leaves the state,
  the phases and the id of the plan alone, adds only safe paths to \<open>filesCreated\<close>, returns
  one of three errors, and returns an error that is not a panic exactly when a directory
  creation or a file write has failed.
\<close>

definition fileStep ::
  "ExecutionPlan \<times> trace \<times> string list
     \<Rightarrow> error option \<times> ExecutionPlan \<times> trace \<times> string list \<Rightarrow> bool" where
  "fileStep s r =
     (case s of (plan, tr, created) \<Rightarrow>
      case r of (err, plan', tr', created') \<Rightarrow>
        (\<exists>new. tr' = tr @ new \<and> started new = [] \<and> filesExtend plan plan' new \<and>
           list_all (\<lambda>e. \<exists>d p c ok. e = MkdirAll d ok \<or> e = WriteFile p c ok) new \<and>
           (list_ex failed_io new \<longleftrightarrow> (\<exists>e. err = Some e \<and> \<not> is_panic e))) \<and>
        Plan_State plan' = Plan_State plan \<and> Plan_Phases plan' = Plan_Phases plan \<and>
        Plan_ID plan' = Plan_ID plan \<and>
        set created' \<subseteq> set created \<union> {p. \<not> unsafePath p} \<and>
        (err = None \<or> (\<exists>f. err = Some (ErrCreateDirectory f)) \<or>
         (\<exists>f. err = Some (ErrWrite f)) \<or> err = Some PanicNilMap))"

text \<open>The two list invariants of the execution state: every index in \<open>completedPhases\<close>
  and \<open>failedPhases\<close> is an index of \<open>phases\<close>, and no index is in both.\<close>

definition indicesValid :: "ExecutionPlan \<Rightarrow> bool" where
  "indicesValid plan =
     list_all (\<lambda>i. 0 \<le> i \<and> i < int (length (Plan_Phases plan)))
       (State_CompletedPhases (Plan_State plan) @ State_FailedPhases (Plan_State plan))"

definition listsDisjoint :: "ExecutionPlan \<Rightarrow> bool" where
  "listsDisjoint plan =
     list_all (\<lambda>i. i \<notin> set (State_FailedPhases (Plan_State plan)))
       (State_CompletedPhases (Plan_State plan))"

text \<open>Every index in the two lists is below the phase at which \<open>Execute\<close> will start: the
  state of a new or reset plan, and of a plan whose run was cut off between two phases.\<close>

definition listsBehind :: "ExecutionPlan \<Rightarrow> bool" where
  "listsBehind plan =
     list_all (\<lambda>i. i < max 0 (State_CurrentPhase (Plan_State plan)))
       (State_CompletedPhases (Plan_State plan) @ State_FailedPhases (Plan_State plan))"

text \<open>A state from which a run can go to completion with consistent lists: the phase to
  start at is not beyond the end, the phases before it are the completed ones, and none
  has failed.\<close>

definition consistentStart :: "ExecutionPlan \<Rightarrow> bool" where
  "consistentStart plan =
     (State_CurrentPhase (Plan_State plan) \<le> int (length (Plan_Phases plan)) \<and>
      int (length (State_CompletedPhases (Plan_State plan))) =
        max 0 (State_CurrentPhase (Plan_State plan)) \<and>
      State_FailedPhases (Plan_State plan) = [])"

text \<open>The dependency rule in the words of the specification: \<open>D\<close> is the id or the name of
  a phase whose index is in \<open>completedPhases\<close>.\<close>

definition dependencyMatched :: "ExecutionPlan \<Rightarrow> string \<Rightarrow> bool" where
  "dependencyMatched plan D =
     list_ex (\<lambda>idx. 0 \<le> idx \<and> idx < int (length (Plan_Phases plan)) \<and>
                (Phase_ID (Plan_Phases plan ! nat idx) = D \<or>
                 Phase_Name (Plan_Phases plan ! nat idx) = D))
       (State_CompletedPhases (Plan_State plan))"

definition allDependenciesMatched :: "ExecutionPlan \<Rightarrow> Phase \<Rightarrow> bool" where
  "allDependenciesMatched plan phase =
     list_all (dependencyMatched plan) (Phase_Dependencies phase)"

section \<open>A worked example\<close>

text \<open>
  An answer with four fenced blocks: a file outside the project, the same file twice,
  and a shell block whose first line is on the denylist. \<open>example_matches\<close> lists the
  matches of the three patterns in that answer.
\<close>

definition newline :: string where
  "newline = [CHR 0x0A]"

definition example_block1 :: string where
  "example_block1 =
     backticks @ ''python ../escape.py'' @ newline @ ''print(1)'' @ newline @ backticks"

definition example_block2 :: string where
  "example_block2 =
     backticks @ ''python app/main.py'' @ newline @ ''print(2)'' @ newline @ backticks"

definition example_block3 :: string where
  "example_block3 =
     backticks @ ''python app/main.py'' @ newline @ ''print(3)'' @ newline @ backticks"

definition example_block4 :: string where
  "example_block4 =
     backticks @ ''bash'' @ newline @ ''rm -rf /'' @ newline @ ''mkdir -p out'' @ newline @
     backticks"

definition example_answer :: string where
  "example_answer =
     example_block1 @ newline @ example_block2 @ newline @ example_block3 @ newline @
     example_block4 @ newline"

definition example_matches :: "string \<Rightarrow> string \<Rightarrow> string list list" where
  "example_matches pat response =
     (if response \<noteq> example_answer then []
      else if pat = file_patterns ! 0 then
        [[example_block1, ''python'', ''../escape.py'', ''print(1)'' @ newline],
         [example_block2, ''python'', ''app/main.py'', ''print(2)'' @ newline],
         [example_block3, ''python'', ''app/main.py'', ''print(3)'' @ newline]]
      else if pat = command_pattern then
        [[example_block4, ''bash'', ''rm -rf /'' @ newline @ ''mkdir -p out'' @ newline]]
      else [])"

definition is_agent_event :: "event \<Rightarrow> bool" where
  "is_agent_event e = (case e of AgentExecute _ _ _ \<Rightarrow> True | _ \<Rightarrow> False)"

text \<open>A world in which every file write and every command succeeds or fails as
  \<open>io_ok\<close> says, and in which the agent answers \<open>example_answer\<close>, except that its call
  number \<open>n\<close> (counted from 0) fails when \<open>fail_at\<close> is \<open>Some n\<close>.\<close>

definition example_env :: "bool \<Rightarrow> nat option \<Rightarrow> env" where
  "example_env io_ok fail_at =
     \<lparr>FindAllStringSubmatch = example_matches,
      mkdir_ok = (\<lambda>tr p. True), write_ok = (\<lambda>tr p c. io_ok), bash_ok = (\<lambda>tr c. io_ok),
      stat_size = (\<lambda>tr p. 8),
      agent_reply = (\<lambda>tr a plan phase.
        if fail_at = Some (length (filter is_agent_event tr)) then Inl ''deadline exceeded''
        else Inr example_answer),
      time_Now = (\<lambda>tr. 100 + length tr)\<rparr>"

definition example_executor :: Executor where
  "example_executor =
     \<lparr>Executor_agents = [\<lparr>Agent_Name = ''CodeAgent'', Agent_Type = ''code''\<rparr>],
      Executor_checkpoints = []\<rparr>"

definition example_phase :: "string \<Rightarrow> string \<Rightarrow> string list \<Rightarrow> Phase" where
  "example_phase pid name deps =
     \<lparr>Phase_ID = pid, Phase_Name = name, Phase_Agent = ''code'',
      Phase_Tasks = [\<lparr>Task_ID = ''t'', Task_Description = ''echo'', Task_Completed = False,
                      Task_Result = [], Task_Error = []\<rparr>],
      Phase_SuccessCriteria = [], Phase_EstimatedTime = [], Phase_Dependencies = deps,
      Phase_Status = PhaseStatusPending\<rparr>"

text \<open>The state the planner gives a new plan.\<close>

definition pending_state :: ExecutionState where
  "pending_state =
     \<lparr>State_Status = ExecutionStatusPending, State_CurrentPhase = 0,
      State_CompletedPhases = [], State_FailedPhases = [], State_LastCheckpoint = [],
      State_StartedAt = None, State_CompletedAt = None\<rparr>"

definition example_plan :: "Phase list \<Rightarrow> ExecutionPlan" where
  "example_plan phases =
     \<lparr>Plan_ID = ''p1'', Plan_Title = ''demo'', Plan_Description = [],
      Plan_FileStructure = None, Plan_Phases = phases, Plan_State = pending_state,
      Plan_Manifest = None, Plan_CreatedAt = 1, Plan_UpdatedAt = 1\<rparr>"

text \<open>A plan of one phase, run in a world where the agent's first call fails: the first
  \<open>Execute\<close> fails, the second is called on the plan, the executor and the trace the
  first one left.\<close>

definition one_phase_plan :: ExecutionPlan where
  "one_phase_plan = example_plan [example_phase ''phase-1'' ''alpha'' []]"

definition first_run :: "error option \<times> ExecutionPlan \<times> Executor \<times> trace" where
  "first_run = Execute (example_env True (Some 0)) example_executor one_phase_plan []"

definition second_run :: "error option \<times> ExecutionPlan \<times> Executor \<times> trace" where
  "second_run =
     Execute (example_env True (Some 0)) (fst (snd (snd first_run))) (fst (snd first_run))
       (snd (snd (snd first_run)))"

text \<open>A plan of two phases, the second depending on the first by name.\<close>

definition two_phase_plan :: ExecutionPlan where
  "two_phase_plan =
     example_plan [example_phase ''a'' ''alpha'' [], example_phase ''b'' ''beta'' [''alpha'']]"

text \<open>The two-phase plan and the plan without phases, run in a world where nothing
  fails.\<close>

definition clean_run :: "error option \<times> ExecutionPlan \<times> Executor \<times> trace" where
  "clean_run = Execute (example_env True None) example_executor two_phase_plan []"

definition empty_run :: "error option \<times> ExecutionPlan \<times> Executor \<times> trace" where
  "empty_run = Execute (example_env True None) example_executor (example_plan []) []"


text \<open>The statuses the executor gives a phase.\<close>

definition executorStatus :: "PhaseStatus \<Rightarrow> bool" where
  "executorStatus s =
     (s = PhaseStatusPending \<or> s = PhaseStatusInProgress \<or> s = PhaseStatusCompleted)"



text \<open>A plan whose only phase depends on a phase that does not exist.\<close>

definition blocked_plan :: ExecutionPlan where
  "blocked_plan = example_plan [example_phase ''a'' ''alpha'' [''beta'']]"



section \<open>Shell commands: the denylist\<close>

lemma isDangerousCommand_iff:
  "isDangerousCommand c \<longleftrightarrow>
     Contains c ''rm -rf /'' \<or> Contains c ''rm -rf ~'' \<or> Contains c '':(){ :|:& };:''"
  by (simp add: isDangerousCommand_def dangerous_def)

lemma processCommandLines_safe:
  "processCommandLines E ls (tr, done) = (err, tr', done') \<Longrightarrow>
     (\<forall>c ok. BashRun c ok \<in> set tr' \<longrightarrow> BashRun c ok \<in> set tr \<or> \<not> isDangerousCommand c) \<and>
     (\<forall>c. c \<in> set done' \<longrightarrow> c \<in> set done \<or> \<not> isDangerousCommand c) \<and>
     (\<forall>e. err = Some e \<longrightarrow>
        (\<exists>c. e = ErrExecute c \<and> \<not> isDangerousCommand c \<and> BashRun c False \<in> set tr'))"
proof (induction ls arbitrary: tr "done")
  case Nil
  then show ?case by simp
next
  case (Cons l ls)
  let ?c = "TrimSpace l"
  consider (skip) "?c = [] \<or> HasPrefix ?c ''#'' \<or> isDangerousCommand ?c"
    | (ok) "\<not> (?c = [] \<or> HasPrefix ?c ''#'')" "\<not> isDangerousCommand ?c" "bash_ok E tr ?c"
    | (fail) "\<not> (?c = [] \<or> HasPrefix ?c ''#'')" "\<not> isDangerousCommand ?c" "\<not> bash_ok E tr ?c"
    by blast
  then show ?case
  proof cases
    case skip
    with Cons.prems have "processCommandLines E ls (tr, done) = (err, tr', done')"
      by (auto simp: Let_def split: if_splits)
    from Cons.IH[OF this] show ?thesis .
  next
    case ok
    with Cons.prems have
      "processCommandLines E ls (tr @ [BashRun ?c True], done @ [?c]) = (err, tr', done')"
      by (simp add: Let_def)
    from Cons.IH[OF this] ok(2) show ?thesis by auto
  next
    case fail
    with Cons.prems show ?thesis by (auto simp: Let_def)
  qed
qed

lemma processCommandLines_skip:
  "isDangerousCommand (TrimSpace l) \<Longrightarrow>
     processCommandLines E (l # ls) s = processCommandLines E ls s"
  by (cases s) (simp add: Let_def)

lemma processCommandMatches_safe:
  "processCommandMatches E ms (tr, done) = (err, tr', done') \<Longrightarrow>
     (\<forall>c ok. BashRun c ok \<in> set tr' \<longrightarrow> BashRun c ok \<in> set tr \<or> \<not> isDangerousCommand c) \<and>
     (\<forall>c. c \<in> set done' \<longrightarrow> c \<in> set done \<or> \<not> isDangerousCommand c) \<and>
     (\<forall>e. err = Some e \<longrightarrow>
        (\<exists>c. e = ErrExecute c \<and> \<not> isDangerousCommand c \<and> BashRun c False \<in> set tr'))"
proof (induction ms arbitrary: tr "done")
  case Nil
  then show ?case by simp
next
  case (Cons m ms)
  show ?case
  proof (cases "length m < 3 \<or> TrimSpace (m ! 2) = []")
    case True
    with Cons.prems have "processCommandMatches E ms (tr, done) = (err, tr', done')"
      by (auto simp: Let_def split: if_splits)
    from Cons.IH[OF this] show ?thesis .
  next
    case False
    obtain e1 tr1 d1 where
      l: "processCommandLines E (Split (TrimSpace (m ! 2)) (CHR 0x0A)) (tr, done) = (e1, tr1, d1)"
      by (metis prod_cases3)
    note s1 = processCommandLines_safe[OF l]
    show ?thesis
    proof (cases e1)
      case None
      with False l Cons.prems have "processCommandMatches E ms (tr1, d1) = (err, tr', done')"
        by (simp add: Let_def)
      from Cons.IH[OF this] s1 show ?thesis by blast
    next
      case (Some e)
      with False l Cons.prems have "err = e1" "tr' = tr1" "done' = d1"
        by (simp_all add: Let_def)
      with s1 show ?thesis by simp
    qed
  qed
qed

lemma processCommandBlocks_safe:
  assumes "processCommandBlocks E response tr = (done, err, tr')"
  shows "(\<forall>c ok. BashRun c ok \<in> set tr' \<longrightarrow> BashRun c ok \<in> set tr \<or> \<not> isDangerousCommand c) \<and>
     (\<forall>c. c \<in> set done \<longrightarrow> \<not> isDangerousCommand c) \<and>
     (\<forall>e. err = Some e \<longrightarrow>
        (\<exists>c. e = ErrExecute c \<and> \<not> isDangerousCommand c \<and> BashRun c False \<in> set tr'))"
proof -
  from assms have
    "processCommandMatches E (FindAllStringSubmatch E command_pattern response) (tr, []) =
       (err, tr', done)"
    by (simp add: processCommandBlocks_def split: prod.splits)
  from processCommandMatches_safe[OF this] show ?thesis by simp
qed

text \<open>
  Claim C6. Of the lines of a shell block, trimmed, not empty and not a comment, a line
  that contains \<open>rm -rf /\<close>, \<open>rm -rf ~\<close> or the fork bomb is passed over: the loop goes on
  with the next line exactly as if the line were not there, so nothing is run and no
  error arises from it. Every command that \<open>processCommandBlocks\<close> runs, every command it
  reports as executed and every command whose failure it returns contains none of the
  three patterns.
\<close>

theorem dangerous_commands_never_run:
  assumes "processCommandBlocks E response tr = (done, err, tr')"
  shows "(\<forall>c ok. BashRun c ok \<in> set tr' \<and> BashRun c ok \<notin> set tr \<longrightarrow>
            \<not> Contains c ''rm -rf /'' \<and> \<not> Contains c ''rm -rf ~'' \<and>
            \<not> Contains c '':(){ :|:& };:'') \<and>
         (\<forall>c. c \<in> set done \<longrightarrow> \<not> isDangerousCommand c) \<and>
         (\<forall>e. err = Some e \<longrightarrow> (\<exists>c. e = ErrExecute c \<and> \<not> isDangerousCommand c)) \<and>
         (\<forall>l ls s. TrimSpace l \<noteq> [] \<and> \<not> HasPrefix (TrimSpace l) ''#'' \<and>
            isDangerousCommand (TrimSpace l) \<longrightarrow>
            processCommandLines E (l # ls) s = processCommandLines E ls s)"
  using processCommandBlocks_safe[OF assms] processCommandLines_skip
  by (auto simp: isDangerousCommand_iff)

theorem dangerous_commands_never_run_witness:
  "processCommandBlocks (example_env True None) example_answer [] =
     ([''mkdir -p out''], None, [BashRun ''mkdir -p out'' True]) \<and>
   isDangerousCommand (TrimSpace ''rm -rf /'') \<and>
   \<not> isDangerousCommand ''mkdir -p out'' \<and>
   processCommandLines (example_env True None) [''rm -rf /'', ''mkdir -p out''] ([], []) =
     processCommandLines (example_env True None) [''mkdir -p out''] ([], [])"
proof -
  have run: "processCommandBlocks (example_env True None) example_answer [] =
     ([''mkdir -p out''], None, [BashRun ''mkdir -p out'' True])"
    by code_simp
  have d: "isDangerousCommand (TrimSpace ''rm -rf /'')"
    and n: "TrimSpace ''rm -rf /'' \<noteq> []" "\<not> HasPrefix (TrimSpace ''rm -rf /'') ''#''"
    by code_simp+
  from dangerous_commands_never_run[OF run] d n show ?thesis
    using run by simp
qed

section \<open>Traces\<close>

lemma attempted_append [simp]: "attempted (a @ b) = attempted a @ attempted b"
  by (induction a rule: attempted.induct) simp_all

lemma written_append [simp]: "written (a @ b) = written a @ written b"
  by (induction a rule: written.induct) simp_all

lemma started_append [simp]: "started (a @ b) = started a @ started b"
  by (induction a rule: started.induct) simp_all

lemma written_subset_attempted: "set (written tr) \<subseteq> set (attempted tr)"
  by (induction tr rule: written.induct) auto

lemma no_rewrite_append:
  "no_rewrite (a @ b) \<longleftrightarrow>
     no_rewrite a \<and> no_rewrite b \<and> set (written a) \<inter> set (attempted b) = {}"
  by (induction a rule: no_rewrite.induct) auto

lemma no_rewrite_distinct: "no_rewrite tr \<Longrightarrow> distinct (written tr)"
proof (induction tr rule: no_rewrite.induct)
  case (2 p c ok es)
  then show ?case using written_subset_attempted[of es] by auto
qed simp_all

lemma WriteFile_in_attempted: "WriteFile p c ok \<in> set tr \<Longrightarrow> p \<in> set (attempted tr)"
  by (induction tr rule: attempted.induct) auto

lemma plain_trace:
  "list_all plain new \<Longrightarrow>
     attempted new = [] \<and> written new = [] \<and> started new = [] \<and> no_rewrite new"
  by (induction new rule: attempted.induct) simp_all

section \<open>Files: the manifest and the safe paths\<close>

lemma createdPaths_FileExists:
  "Plan_Manifest plan = Some m \<Longrightarrow> FileExists m p \<longleftrightarrow> p \<in> set (createdPaths plan)"
  by (auto simp: FileExists_def createdPaths_def list_ex_iff)

lemma AddFile_result:
  assumes "AddFile E tr path phase purpose plan m = (err, plan')"
    and "Plan_Manifest plan = Some m"
  shows "createdPaths plan' = createdPaths plan @ [path]"
    and "Plan_Manifest plan' \<noteq> None"
    and "Plan_Phases plan' = Plan_Phases plan"
    and "Plan_State plan' = Plan_State plan"
    and "Plan_ID plan' = Plan_ID plan"
    and "err = None \<or> err = Some PanicNilMap"
  using assms
  by (auto simp: AddFile_def Let_def createdPaths_def
      split: StructureRef.splits option.splits)

text \<open>The five ways through the body of the loop of \<open>processFileBlocks\<close>.\<close>

lemma processFileMatch_cases:
  assumes "processFileMatch E n m (plan, tr, created) = (err, plan', tr', created')"
  obtains
    (skip) "err = None" "plan' = plan" "tr' = tr" "created' = created"
  | (mkdir_failed) d f where "err = Some (ErrCreateDirectory f)" "plan' = plan"
      "tr' = tr @ [MkdirAll d False]" "created' = created"
  | (write_failed) p c mk f where "err = Some (ErrWrite f)" "plan' = plan"
      "tr' = tr @ mk @ [WriteFile p c False]" "mk = [] \<or> (\<exists>d. mk = [MkdirAll d True])"
      "\<not> unsafePath p" "p \<notin> set (createdPaths plan)" "created' = created"
  | (wrote_untracked) p c mk where "err = None" "plan' = plan" "Plan_Manifest plan = None"
      "tr' = tr @ mk @ [WriteFile p c True]" "mk = [] \<or> (\<exists>d. mk = [MkdirAll d True])"
      "\<not> unsafePath p" "created' = created @ [p]"
  | (wrote) p c mk mf where "Plan_Manifest plan = Some mf"
      "AddFile E tr' p n [] plan mf = (err, plan')"
      "tr' = tr @ mk @ [WriteFile p c True]" "mk = [] \<or> (\<exists>d. mk = [MkdirAll d True])"
      "\<not> unsafePath p" "p \<notin> set (createdPaths plan)"
      "p = Clean (TrimSpace (m ! 2))"
      "created' = (if err = None then created @ [p] else created)"
proof -
  let ?p = "Clean (TrimSpace (m ! 2))"
  let ?c = "TrimSpace (m ! 3)"
  let ?d = "Dir ?p"
  let ?mk = "?d \<noteq> ''.'' \<and> ?d \<noteq> []"
  let ?tr1 = "if ?mk then tr @ [MkdirAll ?d True] else tr"
  show thesis
  proof (cases "length m < 4 \<or> ?c = [] \<or> unsafePath ?p \<or>
      (case Plan_Manifest plan of None \<Rightarrow> False | Some mf \<Rightarrow> FileExists mf ?p)")
    case True
    with assms show ?thesis
      by (intro skip) (auto simp: processFileMatch_def Let_def unsafePath_def split: if_splits)
  next
    case False
    hence safe: "\<not> unsafePath ?p" and fresh: "?p \<notin> set (createdPaths plan)"
      by (auto simp: createdPaths_FileExists createdPaths_def split: option.splits)
    show ?thesis
    proof (cases "?mk \<and> \<not> mkdir_ok E tr ?d")
      case True
      with False assms show ?thesis
        by (intro mkdir_failed[of "TrimSpace (m ! 2)" ?d])
          (auto simp: processFileMatch_def Let_def unsafePath_def split: if_splits)
    next
      case mkok: False
      show ?thesis
      proof (cases "write_ok E ?tr1 ?p ?c")
        case wfail: False
        with False mkok assms have
          "err = Some (ErrWrite (TrimSpace (m ! 2)))" "plan' = plan"
          "tr' = tr @ (if ?mk then [MkdirAll ?d True] else []) @ [WriteFile ?p ?c False]"
          "created' = created"
          by (auto simp: processFileMatch_def Let_def unsafePath_def split: if_splits)
        then show ?thesis using safe fresh
          by (intro write_failed[of "TrimSpace (m ! 2)"
                "if ?mk then [MkdirAll ?d True] else []" ?p ?c])
            auto
      next
        case wok: True
        show ?thesis
        proof (cases "Plan_Manifest plan")
          case None
          with False mkok wok assms have
            "err = None" "plan' = plan"
            "tr' = tr @ (if ?mk then [MkdirAll ?d True] else []) @ [WriteFile ?p ?c True]"
            "created' = created @ [?p]"
            by (auto simp: processFileMatch_def Let_def unsafePath_def split: if_splits)
          then show ?thesis using safe None
            by (intro wrote_untracked[of "if ?mk then [MkdirAll ?d True] else []" ?p ?c]) auto
        next
          case (Some mf)
          obtain e1 p1 where
            af: "AddFile E (?tr1 @ [WriteFile ?p ?c True]) ?p n [] plan mf = (e1, p1)"
            by (cases "AddFile E (?tr1 @ [WriteFile ?p ?c True]) ?p n [] plan mf")
          with Some False mkok wok assms have res:
            "err = e1" "plan' = p1"
            "tr' = ?tr1 @ [WriteFile ?p ?c True]"
            "created' = (if e1 = None then created @ [?p] else created)"
            by (auto simp: processFileMatch_def Let_def unsafePath_def
                split: if_splits option.splits)
          show ?thesis
            using Some af res safe fresh
            by (intro wrote[of mf ?p "if ?mk then [MkdirAll ?d True] else []" ?c]) auto
        qed
      qed
    qed
  qed
qed

lemma filesExtend_refl: "filesExtend plan plan []"
  by (simp add: filesExtend_def)

lemma filesExtend_trans:
  assumes "filesExtend a b n1" and "filesExtend b c n2"
  shows "filesExtend a c (n1 @ n2)"
proof (cases "Plan_Manifest a = None")
  case True
  with assms show ?thesis by (auto simp: filesExtend_def)
next
  case False
  with assms have b: "Plan_Manifest b \<noteq> None"
    and ab: "createdPaths b = createdPaths a @ written n1"
      "list_all (\<lambda>p. p \<notin> set (createdPaths a)) (attempted n1)" "no_rewrite n1"
    by (auto simp: filesExtend_def)
  with assms have bc: "createdPaths c = createdPaths b @ written n2"
      "list_all (\<lambda>p. p \<notin> set (createdPaths b)) (attempted n2)" "no_rewrite n2"
    by (auto simp: filesExtend_def)
  have "set (written n1) \<inter> set (attempted n2) = {}"
    using ab(1) bc(2) by (auto simp: list_all_iff)
  with ab bc assms False show ?thesis
    by (auto simp: filesExtend_def no_rewrite_append list_all_iff)
qed

lemma filesExtend_plain:
  "list_all plain new \<Longrightarrow> Plan_Manifest b = Plan_Manifest a \<Longrightarrow> filesExtend a b new"
  using plain_trace[of new] by (auto simp: filesExtend_def createdPaths_def)

lemma fileStep_refl: "fileStep s (None, s)"
  by (cases s) (simp add: fileStep_def filesExtend_refl)

lemma fileStep_trans:
  assumes "fileStep s (None, s1)" and "fileStep s1 r"
  shows "fileStep s r"
proof -
  obtain plan tr created where s: "s = (plan, tr, created)" by (cases s)
  obtain plan1 tr1 created1 where s1: "s1 = (plan1, tr1, created1)" by (cases s1)
  obtain err plan2 tr2 created2 where r: "r = (err, plan2, tr2, created2)" by (cases r)
  from assms(1) obtain n1 where n1: "tr1 = tr @ n1" "started n1 = []"
    "filesExtend plan plan1 n1" "\<not> list_ex failed_io n1"
    "list_all (\<lambda>e. \<exists>d p c ok. e = MkdirAll d ok \<or> e = WriteFile p c ok) n1"
    and f1: "Plan_State plan1 = Plan_State plan" "Plan_Phases plan1 = Plan_Phases plan"
    "Plan_ID plan1 = Plan_ID plan" "set created1 \<subseteq> set created \<union> {p. \<not> unsafePath p}"
    unfolding fileStep_def s s1 by auto
  from assms(2) obtain n2 where n2: "tr2 = tr1 @ n2" "started n2 = []"
    "filesExtend plan1 plan2 n2"
    "list_ex failed_io n2 \<longleftrightarrow> (\<exists>e. err = Some e \<and> \<not> is_panic e)"
    "list_all (\<lambda>e. \<exists>d p c ok. e = MkdirAll d ok \<or> e = WriteFile p c ok) n2"
    and f2: "Plan_State plan2 = Plan_State plan1" "Plan_Phases plan2 = Plan_Phases plan1"
    "Plan_ID plan2 = Plan_ID plan1" "set created2 \<subseteq> set created1 \<union> {p. \<not> unsafePath p}"
    "err = None \<or> (\<exists>f. err = Some (ErrCreateDirectory f)) \<or>
         (\<exists>f. err = Some (ErrWrite f)) \<or> err = Some PanicNilMap"
    unfolding fileStep_def s1 r by auto
  have "tr2 = tr @ (n1 @ n2)" using n1 n2 by simp
  moreover have "started (n1 @ n2) = []" using n1 n2 by simp
  moreover have "filesExtend plan plan2 (n1 @ n2)"
    using filesExtend_trans[OF n1(3) n2(3)] .
  moreover have "list_ex failed_io (n1 @ n2) \<longleftrightarrow> (\<exists>e. err = Some e \<and> \<not> is_panic e)"
    using n1(4) n2(4) by (auto simp: list_ex_iff)
  moreover have "list_all (\<lambda>e. \<exists>d p c ok. e = MkdirAll d ok \<or> e = WriteFile p c ok) (n1 @ n2)"
    using n1(5) n2(5) by simp
  ultimately have "\<exists>new. tr2 = tr @ new \<and> started new = [] \<and> filesExtend plan plan2 new \<and>
           list_all (\<lambda>e. \<exists>d p c ok. e = MkdirAll d ok \<or> e = WriteFile p c ok) new \<and>
           (list_ex failed_io new \<longleftrightarrow> (\<exists>e. err = Some e \<and> \<not> is_panic e))"
    by blast
  moreover have "set created2 \<subseteq> set created \<union> {p. \<not> unsafePath p}"
    using f1(4) f2(4) by blast
  ultimately show ?thesis
    unfolding fileStep_def s r using f1 f2 by simp
qed

lemma processFileMatch_step: "fileStep s (processFileMatch E n m s)"
proof -
  obtain plan tr created where s: "s = (plan, tr, created)" by (cases s)
  obtain err plan' tr' created' where
    r: "processFileMatch E n m (plan, tr, created) = (err, plan', tr', created')"
    by (cases "processFileMatch E n m (plan, tr, created)")
  from r have "fileStep (plan, tr, created) (err, plan', tr', created')"
  proof (cases rule: processFileMatch_cases)
    case skip
    then show ?thesis by (auto simp: fileStep_def filesExtend_refl)
  next
    case (mkdir_failed d f)
    then show ?thesis by (auto simp: fileStep_def filesExtend_def)
  next
    case (write_failed p c mk f)
    then show ?thesis by (auto simp: fileStep_def filesExtend_def)
  next
    case (wrote_untracked p c mk)
    then show ?thesis by (auto simp: fileStep_def filesExtend_def)
  next
    case (wrote p c mk mf)
    note af = AddFile_result[OF wrote(2,1)]
    from wrote af show ?thesis by (auto simp: fileStep_def filesExtend_def)
  qed
  then show ?thesis by (simp add: s r)
qed

lemma processFileMatches_step: "fileStep s (processFileMatches E n ms s)"
proof (induction ms arbitrary: s)
  case Nil
  then show ?case by (simp add: fileStep_refl)
next
  case (Cons m ms)
  obtain e1 s1 where r1: "processFileMatch E n m s = (e1, s1)"
    by (cases "processFileMatch E n m s")
  have st: "fileStep s (e1, s1)" using processFileMatch_step[of s E n m] r1 by simp
  show ?case
  proof (cases e1)
    case None
    with r1 have "processFileMatches E n (m # ms) s = processFileMatches E n ms s1" by simp
    with fileStep_trans[OF st[unfolded None] Cons.IH[of s1]] show ?thesis by simp
  next
    case (Some e)
    with r1 st show ?thesis by simp
  qed
qed

lemma processFilePatterns_step: "fileStep s (processFilePatterns E response n pats s)"
proof (induction pats arbitrary: s)
  case Nil
  then show ?case by (simp add: fileStep_refl)
next
  case (Cons pat pats)
  let ?ms = "FindAllStringSubmatch E pat response"
  obtain e1 s1 where r1: "processFileMatches E n ?ms s = (e1, s1)"
    by (cases "processFileMatches E n ?ms s")
  have st: "fileStep s (e1, s1)" using processFileMatches_step[of s E n ?ms] r1 by simp
  show ?case
  proof (cases e1)
    case None
    with r1 have "processFilePatterns E response n (pat # pats) s =
        processFilePatterns E response n pats s1" by simp
    with fileStep_trans[OF st[unfolded None] Cons.IH[of s1]] show ?thesis by simp
  next
    case (Some e)
    with r1 st show ?thesis by simp
  qed
qed

lemma processFileBlocks_step:
  assumes "processFileBlocks E response plan n tr = (created, err, plan', tr')"
  shows "fileStep (plan, tr, []) (err, plan', tr', created)"
proof -
  from assms have "processFilePatterns E response n file_patterns (plan, tr, []) =
      (err, plan', tr', created)"
    by (simp add: processFileBlocks_def split: prod.splits)
  with processFilePatterns_step[of "(plan, tr, [])" E response n file_patterns]
  show ?thesis by simp
qed

lemma processCommandLines_trace:
  "processCommandLines E ls (tr, done) = (err, tr', done') \<Longrightarrow>
     \<exists>new. tr' = tr @ new \<and> list_all (\<lambda>e. \<exists>c ok. e = BashRun c ok) new \<and>
       (list_ex failed_io new \<longleftrightarrow> err \<noteq> None)"
proof (induction ls arbitrary: tr "done")
  case Nil
  then show ?case by simp
next
  case (Cons l ls)
  let ?c = "TrimSpace l"
  consider (skip) "?c = [] \<or> HasPrefix ?c ''#'' \<or> isDangerousCommand ?c"
    | (ok) "\<not> (?c = [] \<or> HasPrefix ?c ''#'' \<or> isDangerousCommand ?c)" "bash_ok E tr ?c"
    | (fail) "\<not> (?c = [] \<or> HasPrefix ?c ''#'' \<or> isDangerousCommand ?c)" "\<not> bash_ok E tr ?c"
    by blast
  then show ?case
  proof cases
    case skip
    with Cons.prems have "processCommandLines E ls (tr, done) = (err, tr', done')"
      by (auto simp: Let_def split: if_splits)
    from Cons.IH[OF this] show ?thesis .
  next
    case ok
    with Cons.prems have
      "processCommandLines E ls (tr @ [BashRun ?c True], done @ [?c]) = (err, tr', done')"
      by (simp add: Let_def)
    from Cons.IH[OF this] obtain new where
      "tr' = (tr @ [BashRun ?c True]) @ new" "list_all (\<lambda>e. \<exists>c ok. e = BashRun c ok) new"
      "list_ex failed_io new \<longleftrightarrow> err \<noteq> None"
      by blast
    then show ?thesis
      by (intro exI[of _ "BashRun ?c True # new"]) auto
  next
    case fail
    with Cons.prems show ?thesis by (auto simp: Let_def)
  qed
qed

lemma processCommandMatches_trace:
  "processCommandMatches E ms (tr, done) = (err, tr', done') \<Longrightarrow>
     \<exists>new. tr' = tr @ new \<and> list_all (\<lambda>e. \<exists>c ok. e = BashRun c ok) new \<and>
       (list_ex failed_io new \<longleftrightarrow> err \<noteq> None)"
proof (induction ms arbitrary: tr "done")
  case Nil
  then show ?case by simp
next
  case (Cons m ms)
  show ?case
  proof (cases "length m < 3 \<or> TrimSpace (m ! 2) = []")
    case True
    with Cons.prems have "processCommandMatches E ms (tr, done) = (err, tr', done')"
      by (auto simp: Let_def split: if_splits)
    from Cons.IH[OF this] show ?thesis .
  next
    case False
    obtain e1 tr1 d1 where
      l: "processCommandLines E (Split (TrimSpace (m ! 2)) (CHR 0x0A)) (tr, done) = (e1, tr1, d1)"
      by (metis prod_cases3)
    from processCommandLines_trace[OF l] obtain n1 where
      n1: "tr1 = tr @ n1" "list_all (\<lambda>e. \<exists>c ok. e = BashRun c ok) n1"
      "list_ex failed_io n1 \<longleftrightarrow> e1 \<noteq> None"
      by blast
    show ?thesis
    proof (cases e1)
      case None
      with False l Cons.prems have "processCommandMatches E ms (tr1, d1) = (err, tr', done')"
        by (simp add: Let_def)
      from Cons.IH[OF this] obtain n2 where
        "tr' = tr1 @ n2" "list_all (\<lambda>e. \<exists>c ok. e = BashRun c ok) n2"
        "list_ex failed_io n2 \<longleftrightarrow> err \<noteq> None"
        by blast
      with n1 None show ?thesis
        by (intro exI[of _ "n1 @ n2"]) (auto simp: list_ex_iff)
    next
      case (Some e)
      with False l Cons.prems have "err = e1" "tr' = tr1"
        by (simp_all add: Let_def)
      with n1 show ?thesis by blast
    qed
  qed
qed

lemma processCommandBlocks_trace:
  assumes "processCommandBlocks E response tr = (done, err, tr')"
  shows "\<exists>new. tr' = tr @ new \<and> list_all (\<lambda>e. \<exists>c ok. e = BashRun c ok) new \<and>
       (list_ex failed_io new \<longleftrightarrow> err \<noteq> None)"
proof -
  from assms have
    "processCommandMatches E (FindAllStringSubmatch E command_pattern response) (tr, []) =
       (err, tr', done)"
    by (simp add: processCommandBlocks_def split: prod.splits)
  from processCommandMatches_trace[OF this] show ?thesis .
qed

lemma bash_events_plain:
  "list_all (\<lambda>e. \<exists>c ok. e = BashRun c ok) new \<Longrightarrow> list_all plain new"
  by (induction new) auto

lemma file_events_started:
  "list_all (\<lambda>e. \<exists>d p c ok. e = MkdirAll d ok \<or> e = WriteFile p c ok) new \<Longrightarrow> started new = []"
  by (induction new) auto

lemma filesExtend_cong:
  "Plan_Manifest a' = Plan_Manifest a \<Longrightarrow> Plan_Manifest b' = Plan_Manifest b \<Longrightarrow>
     filesExtend a' b' n = filesExtend a b n"
  by (simp add: filesExtend_def createdPaths_def)

text \<open>The four ways through \<open>executePhase\<close>.\<close>

lemma executePhase_cases:
  assumes "executePhase E ex plan i tr = (err, plan', tr')"
  obtains
    (not_found) "err = Some (ErrAgentNotFound (Phase_Agent (Plan_Phases plan ! i)))"
      "plan' = plan\<lparr>Plan_Phases := (Plan_Phases plan)
         [i := (Plan_Phases plan ! i)\<lparr>Phase_Status := PhaseStatusInProgress\<rparr>]\<rparr>"
      "tr' = tr"
  | (agent_failed) msg a rid where "err = Some (ErrAgentExecute msg)"
      "plan' = plan\<lparr>Plan_Phases := (Plan_Phases plan)
         [i := (Plan_Phases plan ! i)\<lparr>Phase_Status := PhaseStatusInProgress\<rparr>]\<rparr>"
      "tr' = tr @ [AgentExecute a rid False]"
  | (panicked) answer a rid created e where "err = Some e" "is_panic e"
      "processFileBlocks E answer
         (plan\<lparr>Plan_Phases := (Plan_Phases plan)
           [i := (Plan_Phases plan ! i)\<lparr>Phase_Status := PhaseStatusInProgress\<rparr>]\<rparr>)
         (Phase_Name (Plan_Phases plan ! i)) (tr @ [AgentExecute a rid True]) =
       (created, err, plan', tr')"
  | (answered) answer a rid created ferr plan2 tr2 commands cerr where "err = None"
      "processFileBlocks E answer
         (plan\<lparr>Plan_Phases := (Plan_Phases plan)
           [i := (Plan_Phases plan ! i)\<lparr>Phase_Status := PhaseStatusInProgress\<rparr>]\<rparr>)
         (Phase_Name (Plan_Phases plan ! i)) (tr @ [AgentExecute a rid True]) =
       (created, ferr, plan2, tr2)"
      "\<forall>e. ferr = Some e \<longrightarrow> \<not> is_panic e"
      "processCommandBlocks E answer tr2 = (commands, cerr, tr')"
      "plan' = plan2\<lparr>Plan_Phases := (Plan_Phases plan2)
         [i := markTasks answer (Plan_Phases plan2 ! i)]\<rparr>"
proof -
  let ?phase = "(Plan_Phases plan ! i)\<lparr>Phase_Status := PhaseStatusInProgress\<rparr>"
  let ?plan1 = "plan\<lparr>Plan_Phases := (Plan_Phases plan)[i := ?phase]\<rparr>"
  show thesis
  proof (cases "find (\<lambda>a. Agent_Type a = Phase_Agent ?phase) (Executor_agents ex)")
    case None
    with assms show ?thesis
      by (intro not_found) (simp_all add: executePhase_def Let_def)
  next
    case (Some ag)
    let ?rid = "Plan_ID plan @ ''-phase-'' @ Phase_ID ?phase"
    show ?thesis
    proof (cases "agent_reply E tr ag ?plan1 ?phase")
      case (Inl msg)
      with Some assms show ?thesis
        by (intro agent_failed[of msg "Agent_Type ag" ?rid])
          (simp_all add: executePhase_def Let_def)
    next
      case (Inr answer)
      let ?tr1 = "tr @ [AgentExecute (Agent_Type ag) ?rid True]"
      obtain created ferr plan2 tr2 where
        fb: "processFileBlocks E answer ?plan1 (Phase_Name ?phase) ?tr1 =
              (created, ferr, plan2, tr2)"
        by (cases "processFileBlocks E answer ?plan1 (Phase_Name ?phase) ?tr1")
      show ?thesis
      proof (cases "case ferr of None \<Rightarrow> False | Some e \<Rightarrow> is_panic e")
        case True
        then obtain e where e: "ferr = Some e" "is_panic e"
          by (cases ferr) auto
        from True Some Inr fb assms have "err = ferr" "plan' = plan2" "tr' = tr2"
          by (simp_all add: executePhase_def Let_def)
        with e fb show ?thesis
          by (intro panicked[of e answer "Agent_Type ag" ?rid created]) simp_all
      next
        case False
        obtain commands cerr tr3 where
          cb: "processCommandBlocks E answer tr2 = (commands, cerr, tr3)"
          by (cases "processCommandBlocks E answer tr2")
        from False Some Inr fb cb assms have
          "err = None" "tr' = tr3"
          "plan' = plan2\<lparr>Plan_Phases := (Plan_Phases plan2)
             [i := markTasks answer (Plan_Phases plan2 ! i)]\<rparr>"
          by (simp_all add: executePhase_def Let_def)
        moreover from False have "\<forall>e. ferr = Some e \<longrightarrow> \<not> is_panic e"
          by (cases ferr) auto
        ultimately show ?thesis using fb cb
          by (intro answered[of answer "Agent_Type ag" ?rid created ferr plan2 tr2 commands cerr])
            simp_all
      qed
    qed
  qed
qed

text \<open>What \<open>executePhase\<close> does, whatever way it takes: to the trace and the manifest,
  to the rest of the plan, and what it returns.\<close>

lemma executePhase_trace:
  assumes r: "executePhase E ex plan i tr = (err, plan', tr')"
  shows "\<exists>new. tr' = tr @ new \<and> started new = [] \<and> filesExtend plan plan' new \<and>
            (list_ex failed_io new \<longrightarrow> err = None)"
  using r
proof (cases rule: executePhase_cases)
  case not_found
  have "filesExtend plan plan' []"
    using not_found by (intro filesExtend_plain) simp_all
  with not_found show ?thesis by simp
next
  case (agent_failed msg a rid)
  have "filesExtend plan plan' [AgentExecute a rid False]"
    using agent_failed by (intro filesExtend_plain) simp_all
  with agent_failed show ?thesis by simp
next
  case (panicked answer a rid created e)
  let ?plan1 = "plan\<lparr>Plan_Phases := (Plan_Phases plan)
           [i := (Plan_Phases plan ! i)\<lparr>Phase_Status := PhaseStatusInProgress\<rparr>]\<rparr>"
  from processFileBlocks_step[OF panicked(3)] obtain n where
    n: "tr' = (tr @ [AgentExecute a rid True]) @ n" "started n = []"
      "filesExtend ?plan1 plan' n"
      "list_ex failed_io n \<longleftrightarrow> (\<exists>e. err = Some e \<and> \<not> is_panic e)"
    unfolding fileStep_def by auto
  have "filesExtend plan ?plan1 [AgentExecute a rid True]"
    by (intro filesExtend_plain) simp_all
  from filesExtend_trans[OF this n(3)]
  have fe: "filesExtend plan plan' ([AgentExecute a rid True] @ n)" .
  have "tr' = tr @ ([AgentExecute a rid True] @ n)" using n(1) by simp
  moreover have "started ([AgentExecute a rid True] @ n) = []" using n(2) by simp
  moreover have "\<not> list_ex failed_io ([AgentExecute a rid True] @ n)"
    using n(4) panicked(1,2) by simp
  ultimately show ?thesis using fe by blast
next
  case (answered answer a rid created ferr plan2 tr2 commands cerr)
  let ?plan1 = "plan\<lparr>Plan_Phases := (Plan_Phases plan)
           [i := (Plan_Phases plan ! i)\<lparr>Phase_Status := PhaseStatusInProgress\<rparr>]\<rparr>"
  from processFileBlocks_step[OF answered(2)] obtain n where
    n: "tr2 = (tr @ [AgentExecute a rid True]) @ n" "started n = []"
      "filesExtend ?plan1 plan2 n"
    unfolding fileStep_def by auto
  from processCommandBlocks_trace[OF answered(4)] obtain nc where
    nc: "tr' = tr2 @ nc" "list_all (\<lambda>e. \<exists>c ok. e = BashRun c ok) nc"
    by blast
  have pl: "list_all plain nc" using nc(2) by (rule bash_events_plain)
  have "filesExtend plan ?plan1 [AgentExecute a rid True]"
    by (intro filesExtend_plain) simp_all
  from filesExtend_trans[OF this n(3)]
  have "filesExtend plan plan2 ([AgentExecute a rid True] @ n)" .
  moreover have "filesExtend plan2 plan' nc"
    using pl answered(5) by (intro filesExtend_plain) simp_all
  ultimately have fe: "filesExtend plan plan' (([AgentExecute a rid True] @ n) @ nc)"
    by (rule filesExtend_trans)
  have "tr' = tr @ (([AgentExecute a rid True] @ n) @ nc)" using n(1) nc(1) by simp
  moreover have "started (([AgentExecute a rid True] @ n) @ nc) = []"
    using n(2) plain_trace[OF pl] by simp
  ultimately show ?thesis using fe answered(1) by blast
qed

lemma executePhase_plan1:
  assumes r: "executePhase E ex plan i tr = (err, plan', tr')"
  obtains answers where
    "Plan_State plan' = Plan_State plan" "Plan_ID plan' = Plan_ID plan"
    "Plan_Phases plan' = (Plan_Phases plan)
       [i := (fold markTasks answers
               ((Plan_Phases plan ! i)\<lparr>Phase_Status := PhaseStatusInProgress\<rparr>))]"
    "err = None \<longleftrightarrow> answers \<noteq> []"
  using r
proof (cases rule: executePhase_cases)
  case not_found
  then show ?thesis by (intro that[of "[]"]) simp_all
next
  case (agent_failed msg a rid)
  then show ?thesis by (intro that[of "[]"]) simp_all
next
  case (panicked answer a rid created e)
  from processFileBlocks_step[OF panicked(3)] panicked(1) show ?thesis
    unfolding fileStep_def by (intro that[of "[]"]) simp_all
next
  case (answered answer a rid created ferr plan2 tr2 commands cerr)
  from processFileBlocks_step[OF answered(2)] have
    f: "Plan_State plan2 = Plan_State plan" "Plan_ID plan2 = Plan_ID plan"
      "Plan_Phases plan2 = (Plan_Phases plan)
         [i := (Plan_Phases plan ! i)\<lparr>Phase_Status := PhaseStatusInProgress\<rparr>]"
    unfolding fileStep_def by simp_all
  show ?thesis
  proof (cases "i < length (Plan_Phases plan)")
    case True
    with f answered(1,5) show ?thesis
      by (intro that[of "[answer]"]) simp_all
  next
    case False
    with f answered(1,5) show ?thesis
      by (intro that[of "[answer]"]) (simp_all add: list_update_beyond)
  qed
qed

lemma markTasks_fields [simp]:
  "Phase_Status (markTasks a p) = Phase_Status p"
  "Phase_ID (markTasks a p) = Phase_ID p"
  "Phase_Name (markTasks a p) = Phase_Name p"
  "Phase_Dependencies (markTasks a p) = Phase_Dependencies p"
  "Phase_Agent (markTasks a p) = Phase_Agent p"
  by (simp_all add: markTasks_def)

lemma fold_markTasks_fields [simp]:
  "Phase_Status (fold markTasks as p) = Phase_Status p"
  "Phase_ID (fold markTasks as p) = Phase_ID p"
  "Phase_Name (fold markTasks as p) = Phase_Name p"
  "Phase_Dependencies (fold markTasks as p) = Phase_Dependencies p"
  "Phase_Agent (fold markTasks as p) = Phase_Agent p"
  by (induction as arbitrary: p; simp)+


section \<open>The dependency check\<close>

lemma dependencyCompleted_Inr:
  "dependencyCompleted phases D idxs = Inr b \<Longrightarrow>
     b = list_ex (\<lambda>idx. 0 \<le> idx \<and> idx < int (length phases) \<and>
                (Phase_ID (phases ! nat idx) = D \<or> Phase_Name (phases ! nat idx) = D)) idxs"
  by (induction idxs) (auto simp: Let_def split: if_splits)

lemma dependencyCompleted_Inl:
  "dependencyCompleted phases D idxs = Inl e \<Longrightarrow>
     is_panic e \<and> \<not> list_all (\<lambda>i. 0 \<le> i \<and> i < int (length phases)) idxs"
  by (induction idxs) (auto simp: Let_def split: if_splits)

lemma dependenciesCompleted_Inr:
  "dependenciesCompleted plan deps = Inr b \<Longrightarrow> b = list_all (dependencyMatched plan) deps"
proof (induction deps)
  case Nil
  then show ?case by simp
next
  case (Cons D deps)
  then show ?case
    by (auto simp: dependencyMatched_def split: sum.splits if_splits
        dest!: dependencyCompleted_Inr)
qed

lemma dependenciesCompleted_Inl:
  "dependenciesCompleted plan deps = Inl e \<Longrightarrow>
     is_panic e \<and>
     \<not> list_all (\<lambda>i. 0 \<le> i \<and> i < int (length (Plan_Phases plan)))
         (State_CompletedPhases (Plan_State plan))"
proof (induction deps)
  case Nil
  then show ?case by simp
next
  case (Cons D deps)
  then show ?case
    by (auto split: sum.splits if_splits dest!: dependencyCompleted_Inl)
qed

lemma areDependenciesMet_Inr:
  "areDependenciesMet plan phase = Inr b \<Longrightarrow> b = allDependenciesMatched plan phase"
  by (auto simp: areDependenciesMet_def allDependenciesMatched_def
      split: if_splits dest: dependenciesCompleted_Inr)

lemma areDependenciesMet_Inl:
  "areDependenciesMet plan phase = Inl e \<Longrightarrow> is_panic e \<and> \<not> indicesValid plan"
  by (auto simp: areDependenciesMet_def indicesValid_def
      split: if_splits dest: dependenciesCompleted_Inl)

lemma areDependenciesMet_valid:
  "indicesValid plan \<Longrightarrow>
     areDependenciesMet plan phase = Inr (allDependenciesMatched plan phase)"
  by (cases "areDependenciesMet plan phase")
    (auto dest: areDependenciesMet_Inl areDependenciesMet_Inr)

lemma areDependenciesMet_empty:
  "Phase_Dependencies phase = [] \<Longrightarrow> areDependenciesMet plan phase = Inr True"
  by (simp add: areDependenciesMet_def)

section \<open>One turn of the loop of Execute\<close>

lemma executeIteration_cases:
  assumes "executeIteration E i (plan, ex, tr) = (err, plan', ex', tr')"
  obtains
    (deps_panic) e where "areDependenciesMet plan (Plan_Phases plan ! i) = Inl e"
      "err = Some e" "plan' = plan" "ex' = ex" "tr' = tr"
  | (deps_unmet) "areDependenciesMet plan (Plan_Phases plan ! i) = Inr False"
      "err = Some (ErrDependenciesNotMet (Phase_Name (Plan_Phases plan ! i)))"
      "plan' = plan" "ex' = ex" "tr' = tr"
  | (phase_panic) e where "areDependenciesMet plan (Plan_Phases plan ! i) = Inr True"
      "executePhase E ex' plan i (tr @ [PhaseStarted i]) = (Some e, plan', tr')"
      "is_panic e" "err = Some e"
  | (phase_failed) e plan1 tr1 cid where
      "areDependenciesMet plan (Plan_Phases plan ! i) = Inr True"
      "executePhase E ex' plan i (tr @ [PhaseStarted i]) = (Some e, plan1, tr1)"
      "\<not> is_panic e" "err = Some (ErrPhaseFailed (int i + 1) e)"
      "plan' = plan1\<lparr>Plan_State := (Plan_State plan1)
          \<lparr>State_Status := ExecutionStatusFailed,
           State_FailedPhases := State_FailedPhases (Plan_State plan1) @ [int i]\<rparr>\<rparr>"
      "tr' = tr1 @ [Rollback cid]"
  | (phase_done) plan1 where
      "areDependenciesMet plan (Plan_Phases plan ! i) = Inr True"
      "executePhase E ex' plan i (tr @ [PhaseStarted i]) = (None, plan1, tr')"
      "err = None"
      "plan' = plan1\<lparr>Plan_State := (Plan_State plan1)
           \<lparr>State_CompletedPhases := State_CompletedPhases (Plan_State plan1) @ [int i],
            State_CurrentPhase := int i + 1\<rparr>,
         Plan_Phases := (Plan_Phases plan1)
           [i := (Plan_Phases plan1 ! i)\<lparr>Phase_Status := PhaseStatusCompleted\<rparr>]\<rparr>"
proof (cases "areDependenciesMet plan (Plan_Phases plan ! i)")
  case (Inl e)
  with assms show ?thesis
    by (intro deps_panic[of e]) (auto simp: executeIteration_def Let_def)
next
  case (Inr met)
  show ?thesis
  proof (cases met)
    case False
    with Inr assms show ?thesis
      by (intro deps_unmet) (auto simp: executeIteration_def Let_def)
  next
    case True
    obtain cp ex1 where cc: "createCheckpoint E tr ex (Plan_ID plan) (int i) = (cp, ex1)"
      by (cases "createCheckpoint E tr ex (Plan_ID plan) (int i)")
    obtain e1 plan1 tr1 where
      ep: "executePhase E ex1 plan i (tr @ [PhaseStarted i]) = (e1, plan1, tr1)"
      by (cases "executePhase E ex1 plan i (tr @ [PhaseStarted i])")
    show ?thesis
    proof (cases e1)
      case None
      with True Inr cc ep assms show ?thesis
        by (intro phase_done[of plan1]) (auto simp: executeIteration_def Let_def)
    next
      case (Some e)
      show ?thesis
      proof (cases "is_panic e")
        case pan: True
        with Some True Inr cc ep assms show ?thesis
          by (intro phase_panic[of e]) (auto simp: executeIteration_def Let_def)
      next
        case nopan: False
        with Some True Inr cc ep assms show ?thesis
          by (intro phase_failed[of e plan1 tr1 "Checkpoint_ID cp"])
            (auto simp: executeIteration_def Let_def rollback_def)
      qed
    qed
  qed
qed

lemma executeIteration_state:
  assumes r: "executeIteration E i (plan, ex, tr) = (err, plan', ex', tr')"
  shows "Plan_ID plan' = Plan_ID plan \<and>
     length (Plan_Phases plan') = length (Plan_Phases plan) \<and>
     State_StartedAt (Plan_State plan') = State_StartedAt (Plan_State plan) \<and>
     State_CompletedAt (Plan_State plan') = State_CompletedAt (Plan_State plan) \<and>
     (err = None \<longrightarrow>
        State_CompletedPhases (Plan_State plan') =
          State_CompletedPhases (Plan_State plan) @ [int i] \<and>
        State_FailedPhases (Plan_State plan') = State_FailedPhases (Plan_State plan) \<and>
        State_Status (Plan_State plan') = State_Status (Plan_State plan) \<and>
        State_CurrentPhase (Plan_State plan') = int i + 1) \<and>
     (err \<noteq> None \<longrightarrow>
        State_CompletedPhases (Plan_State plan') = State_CompletedPhases (Plan_State plan) \<and>
        State_CurrentPhase (Plan_State plan') = State_CurrentPhase (Plan_State plan) \<and>
        (State_FailedPhases (Plan_State plan') = State_FailedPhases (Plan_State plan) \<and>
         State_Status (Plan_State plan') = State_Status (Plan_State plan) \<and>
         (\<forall>n e. err \<noteq> Some (ErrPhaseFailed n e)) \<or>
         State_FailedPhases (Plan_State plan') =
           State_FailedPhases (Plan_State plan) @ [int i] \<and>
         State_Status (Plan_State plan') = ExecutionStatusFailed \<and>
         (\<exists>e. err = Some (ErrPhaseFailed (int i + 1) e))))"
  using r
proof (cases rule: executeIteration_cases)
  case (deps_panic e)
  from areDependenciesMet_Inl[OF deps_panic(1)] have "is_panic e" by simp
  hence "\<forall>n e'. e \<noteq> ErrPhaseFailed n e'" by auto
  with deps_panic show ?thesis by simp
next
  case deps_unmet
  then show ?thesis by simp
next
  case (phase_panic e)
  from phase_panic(3) have ne: "\<forall>n e'. e \<noteq> ErrPhaseFailed n e'" by auto
  from phase_panic(2) obtain answers where
    "Plan_State plan' = Plan_State plan" "Plan_ID plan' = Plan_ID plan"
    "Plan_Phases plan' = (Plan_Phases plan)
       [i := (fold markTasks answers
               ((Plan_Phases plan ! i)\<lparr>Phase_Status := PhaseStatusInProgress\<rparr>))]"
    by (rule executePhase_plan1)
  with phase_panic(4) ne show ?thesis by simp
next
  case (phase_failed e plan1 tr1 cid)
  from phase_failed(2) obtain answers where
    "Plan_State plan1 = Plan_State plan" "Plan_ID plan1 = Plan_ID plan"
    "Plan_Phases plan1 = (Plan_Phases plan)
       [i := (fold markTasks answers
               ((Plan_Phases plan ! i)\<lparr>Phase_Status := PhaseStatusInProgress\<rparr>))]"
    by (rule executePhase_plan1)
  with phase_failed(4,5) show ?thesis by simp
next
  case (phase_done plan1)
  from phase_done(2) obtain answers where
    "Plan_State plan1 = Plan_State plan" "Plan_ID plan1 = Plan_ID plan"
    "Plan_Phases plan1 = (Plan_Phases plan)
       [i := (fold markTasks answers
               ((Plan_Phases plan ! i)\<lparr>Phase_Status := PhaseStatusInProgress\<rparr>))]"
    by (rule executePhase_plan1)
  with phase_done(3,4) show ?thesis by simp
qed

lemma executeIteration_trace:
  assumes r: "executeIteration E i (plan, ex, tr) = (err, plan', ex', tr')"
  shows "\<exists>new. tr' = tr @ new \<and> filesExtend plan plan' new \<and>
           (new = [] \<and> err \<noteq> None \<and>
              areDependenciesMet plan (Plan_Phases plan ! i) \<noteq> Inr True \<or>
            (\<exists>rest. new = PhaseStarted i # rest \<and> started rest = []) \<and>
              areDependenciesMet plan (Plan_Phases plan ! i) = Inr True)"
  using r
proof (cases rule: executeIteration_cases)
  case (deps_panic e)
  then show ?thesis by (simp add: filesExtend_refl)
next
  case deps_unmet
  then show ?thesis by (simp add: filesExtend_refl)
next
  case (phase_panic e)
  from executePhase_trace[OF phase_panic(2)] obtain n where
    n: "tr' = (tr @ [PhaseStarted i]) @ n" "started n = []" "filesExtend plan plan' n"
    by blast
  have "filesExtend plan plan [PhaseStarted i]"
    by (simp add: filesExtend_def)
  from filesExtend_trans[OF this n(3)] have "filesExtend plan plan' (PhaseStarted i # n)"
    by simp
  with n phase_panic(1) show ?thesis by simp
next
  case (phase_failed e plan1 tr1 cid)
  from executePhase_trace[OF phase_failed(2)] obtain n where
    n: "tr1 = (tr @ [PhaseStarted i]) @ n" "started n = []" "filesExtend plan plan1 n"
    by blast
  have "filesExtend plan plan [PhaseStarted i]"
    by (simp add: filesExtend_def)
  from filesExtend_trans[OF this n(3)] have "filesExtend plan plan1 (PhaseStarted i # n)"
    by simp
  moreover have "filesExtend plan1 plan' [Rollback cid]"
    using phase_failed(5) by (intro filesExtend_plain) simp_all
  ultimately have "filesExtend plan plan' ((PhaseStarted i # n) @ [Rollback cid])"
    by (rule filesExtend_trans)
  with n phase_failed(1,6) show ?thesis by simp
next
  case (phase_done plan1)
  from executePhase_trace[OF phase_done(2)] obtain n where
    n: "tr' = (tr @ [PhaseStarted i]) @ n" "started n = []" "filesExtend plan plan1 n"
    by blast
  have "filesExtend plan plan [PhaseStarted i]"
    by (simp add: filesExtend_def)
  from filesExtend_trans[OF this n(3)] have "filesExtend plan plan1 (PhaseStarted i # n)"
    by simp
  moreover have "filesExtend plan1 plan' []"
    using phase_done(4) by (intro filesExtend_plain) simp_all
  ultimately have "filesExtend plan plan' ((PhaseStarted i # n) @ [])"
    by (rule filesExtend_trans)
  with n phase_done(1) show ?thesis by simp
qed

lemma executeIteration_phases:
  assumes r: "executeIteration E i (plan, ex, tr) = (err, plan', ex', tr')"
    and i: "i < length (Plan_Phases plan)"
  shows "(\<forall>j. j \<noteq> i \<longrightarrow> Plan_Phases plan' ! j = Plan_Phases plan ! j) \<and>
     Phase_ID (Plan_Phases plan' ! i) = Phase_ID (Plan_Phases plan ! i) \<and>
     Phase_Name (Plan_Phases plan' ! i) = Phase_Name (Plan_Phases plan ! i) \<and>
     Phase_Dependencies (Plan_Phases plan' ! i) = Phase_Dependencies (Plan_Phases plan ! i) \<and>
     (Phase_Status (Plan_Phases plan' ! i) = Phase_Status (Plan_Phases plan ! i) \<or>
      Phase_Status (Plan_Phases plan' ! i) = PhaseStatusInProgress \<or>
      Phase_Status (Plan_Phases plan' ! i) = PhaseStatusCompleted) \<and>
     (\<forall>n e. err = Some (ErrPhaseFailed n e) \<longrightarrow>
        Phase_Status (Plan_Phases plan' ! i) = PhaseStatusInProgress) \<and>
     (err = None \<longrightarrow> Phase_Status (Plan_Phases plan' ! i) = PhaseStatusCompleted)"
  using r
proof (cases rule: executeIteration_cases)
  case (deps_panic e)
  from areDependenciesMet_Inl[OF deps_panic(1)] have "is_panic e" by simp
  hence "\<forall>n e'. e \<noteq> ErrPhaseFailed n e'" by auto
  with deps_panic show ?thesis by simp
next
  case deps_unmet
  then show ?thesis by simp
next
  case (phase_panic e)
  from phase_panic(3) have ne: "\<forall>n e'. e \<noteq> ErrPhaseFailed n e'" by auto
  from phase_panic(2) obtain answers where
    "Plan_Phases plan' = (Plan_Phases plan)
       [i := (fold markTasks answers
               ((Plan_Phases plan ! i)\<lparr>Phase_Status := PhaseStatusInProgress\<rparr>))]"
    by (rule executePhase_plan1)
  with phase_panic(4) ne i show ?thesis by simp
next
  case (phase_failed e plan1 tr1 cid)
  from phase_failed(2) obtain answers where
    "Plan_Phases plan1 = (Plan_Phases plan)
       [i := (fold markTasks answers
               ((Plan_Phases plan ! i)\<lparr>Phase_Status := PhaseStatusInProgress\<rparr>))]"
    by (rule executePhase_plan1)
  with phase_failed(4,5) i show ?thesis by simp
next
  case (phase_done plan1)
  from phase_done(2) obtain answers where
    "Plan_Phases plan1 = (Plan_Phases plan)
       [i := (fold markTasks answers
               ((Plan_Phases plan ! i)\<lparr>Phase_Status := PhaseStatusInProgress\<rparr>))]"
    by (rule executePhase_plan1)
  with phase_done(3,4) i show ?thesis by simp
qed


section \<open>The loop of Execute\<close>

lemma executeLoop_Cons_cases:
  assumes "executeLoop E (i # is) s = r"
  obtains (stop) e s1 where "executeIteration E i s = (Some e, s1)" "r = (Some e, s1)"
  | (go) s1 where "executeIteration E i s = (None, s1)" "executeLoop E is s1 = r"
proof -
  obtain e1 s1 where it: "executeIteration E i s = (e1, s1)"
    by (cases "executeIteration E i s")
  show ?thesis
  proof (cases e1)
    case None
    with it assms show ?thesis by (intro go[of s1]) simp_all
  next
    case (Some e)
    with it assms show ?thesis by (intro stop[of e s1]) simp_all
  qed
qed

lemma executeLoop_state:
  assumes "executeLoop E is (plan, ex, tr) = (err, plan', ex', tr')"
  shows "Plan_ID plan' = Plan_ID plan \<and>
     length (Plan_Phases plan') = length (Plan_Phases plan) \<and>
     State_StartedAt (Plan_State plan') = State_StartedAt (Plan_State plan) \<and>
     State_CompletedAt (Plan_State plan') = State_CompletedAt (Plan_State plan) \<and>
     (\<exists>k\<le>length is.
        State_CompletedPhases (Plan_State plan') =
          State_CompletedPhases (Plan_State plan) @ map int (take k is) \<and>
        (err = None \<longrightarrow> k = length is \<and>
           State_FailedPhases (Plan_State plan') = State_FailedPhases (Plan_State plan) \<and>
           State_Status (Plan_State plan') = State_Status (Plan_State plan) \<and>
           State_CurrentPhase (Plan_State plan') =
             (if is = [] then State_CurrentPhase (Plan_State plan) else int (last is) + 1)) \<and>
        (err \<noteq> None \<longrightarrow> k < length is \<and>
           (State_FailedPhases (Plan_State plan') = State_FailedPhases (Plan_State plan) \<and>
            (\<forall>n e. err \<noteq> Some (ErrPhaseFailed n e)) \<or>
            State_FailedPhases (Plan_State plan') =
              State_FailedPhases (Plan_State plan) @ [int (is ! k)] \<and>
            State_Status (Plan_State plan') = ExecutionStatusFailed \<and>
            (\<exists>e. err = Some (ErrPhaseFailed (int (is ! k) + 1) e)))))"
  using assms
proof (induction "is" arbitrary: plan ex tr)
  case Nil
  then show ?case by simp
next
  case (Cons i "is")
  from Cons.prems show ?case
  proof (cases rule: executeLoop_Cons_cases)
    case (stop e s1)
    hence it: "executeIteration E i (plan, ex, tr) = (err, plan', ex', tr')" by simp
    have ne: "err \<noteq> None" using stop by simp
    note st = executeIteration_state[OF it]
    from st ne have
      "State_CompletedPhases (Plan_State plan') =
          State_CompletedPhases (Plan_State plan) @ map int (take 0 (i # is))"
      "State_FailedPhases (Plan_State plan') = State_FailedPhases (Plan_State plan) \<and>
            (\<forall>n e. err \<noteq> Some (ErrPhaseFailed n e)) \<or>
            State_FailedPhases (Plan_State plan') =
              State_FailedPhases (Plan_State plan) @ [int ((i # is) ! 0)] \<and>
            State_Status (Plan_State plan') = ExecutionStatusFailed \<and>
            (\<exists>e. err = Some (ErrPhaseFailed (int ((i # is) ! 0) + 1) e))"
      by auto
    with ne have "\<exists>k\<le>length (i # is).
        State_CompletedPhases (Plan_State plan') =
          State_CompletedPhases (Plan_State plan) @ map int (take k (i # is)) \<and>
        (err = None \<longrightarrow> k = length (i # is) \<and>
           State_FailedPhases (Plan_State plan') = State_FailedPhases (Plan_State plan) \<and>
           State_Status (Plan_State plan') = State_Status (Plan_State plan) \<and>
           State_CurrentPhase (Plan_State plan') =
             (if i # is = [] then State_CurrentPhase (Plan_State plan)
              else int (last (i # is)) + 1)) \<and>
        (err \<noteq> None \<longrightarrow> k < length (i # is) \<and>
           (State_FailedPhases (Plan_State plan') = State_FailedPhases (Plan_State plan) \<and>
            (\<forall>n e. err \<noteq> Some (ErrPhaseFailed n e)) \<or>
            State_FailedPhases (Plan_State plan') =
              State_FailedPhases (Plan_State plan) @ [int ((i # is) ! k)] \<and>
            State_Status (Plan_State plan') = ExecutionStatusFailed \<and>
            (\<exists>e. err = Some (ErrPhaseFailed (int ((i # is) ! k) + 1) e))))"
      by (intro exI[of _ 0]) simp
    with st show ?thesis by blast
  next
    case (go s1)
    obtain plan1 ex1 tr1 where s1: "s1 = (plan1, ex1, tr1)" by (cases s1)
    from go(1) have it: "executeIteration E i (plan, ex, tr) = (None, plan1, ex1, tr1)"
      by (simp add: s1)
    note st = executeIteration_state[OF it]
    from go(2) have lp: "executeLoop E is (plan1, ex1, tr1) = (err, plan', ex', tr')"
      by (simp add: s1)
    from Cons.IH[OF lp] obtain k where k: "k \<le> length is"
      "State_CompletedPhases (Plan_State plan') =
          State_CompletedPhases (Plan_State plan1) @ map int (take k is)"
      "err = None \<longrightarrow> k = length is \<and>
           State_FailedPhases (Plan_State plan') = State_FailedPhases (Plan_State plan1) \<and>
           State_Status (Plan_State plan') = State_Status (Plan_State plan1) \<and>
           State_CurrentPhase (Plan_State plan') =
             (if is = [] then State_CurrentPhase (Plan_State plan1) else int (last is) + 1)"
      "err \<noteq> None \<longrightarrow> k < length is \<and>
           (State_FailedPhases (Plan_State plan') = State_FailedPhases (Plan_State plan1) \<and>
            (\<forall>n e. err \<noteq> Some (ErrPhaseFailed n e)) \<or>
            State_FailedPhases (Plan_State plan') =
              State_FailedPhases (Plan_State plan1) @ [int (is ! k)] \<and>
            State_Status (Plan_State plan') = ExecutionStatusFailed \<and>
            (\<exists>e. err = Some (ErrPhaseFailed (int (is ! k) + 1) e)))"
      and fr: "Plan_ID plan' = Plan_ID plan1"
      "length (Plan_Phases plan') = length (Plan_Phases plan1)"
      "State_StartedAt (Plan_State plan') = State_StartedAt (Plan_State plan1)"
      "State_CompletedAt (Plan_State plan') = State_CompletedAt (Plan_State plan1)"
      by blast
    from st k have "Suc k \<le> length (i # is) \<and>
        State_CompletedPhases (Plan_State plan') =
          State_CompletedPhases (Plan_State plan) @ map int (take (Suc k) (i # is)) \<and>
        (err = None \<longrightarrow> Suc k = length (i # is) \<and>
           State_FailedPhases (Plan_State plan') = State_FailedPhases (Plan_State plan) \<and>
           State_Status (Plan_State plan') = State_Status (Plan_State plan) \<and>
           State_CurrentPhase (Plan_State plan') =
             (if i # is = [] then State_CurrentPhase (Plan_State plan)
              else int (last (i # is)) + 1)) \<and>
        (err \<noteq> None \<longrightarrow> Suc k < length (i # is) \<and>
           (State_FailedPhases (Plan_State plan') = State_FailedPhases (Plan_State plan) \<and>
            (\<forall>n e. err \<noteq> Some (ErrPhaseFailed n e)) \<or>
            State_FailedPhases (Plan_State plan') =
              State_FailedPhases (Plan_State plan) @ [int ((i # is) ! Suc k)] \<and>
            State_Status (Plan_State plan') = ExecutionStatusFailed \<and>
            (\<exists>e. err = Some (ErrPhaseFailed (int ((i # is) ! Suc k) + 1) e))))"
      by auto
    hence "\<exists>k\<le>length (i # is).
        State_CompletedPhases (Plan_State plan') =
          State_CompletedPhases (Plan_State plan) @ map int (take k (i # is)) \<and>
        (err = None \<longrightarrow> k = length (i # is) \<and>
           State_FailedPhases (Plan_State plan') = State_FailedPhases (Plan_State plan) \<and>
           State_Status (Plan_State plan') = State_Status (Plan_State plan) \<and>
           State_CurrentPhase (Plan_State plan') =
             (if i # is = [] then State_CurrentPhase (Plan_State plan)
              else int (last (i # is)) + 1)) \<and>
        (err \<noteq> None \<longrightarrow> k < length (i # is) \<and>
           (State_FailedPhases (Plan_State plan') = State_FailedPhases (Plan_State plan) \<and>
            (\<forall>n e. err \<noteq> Some (ErrPhaseFailed n e)) \<or>
            State_FailedPhases (Plan_State plan') =
              State_FailedPhases (Plan_State plan) @ [int ((i # is) ! k)] \<and>
            State_Status (Plan_State plan') = ExecutionStatusFailed \<and>
            (\<exists>e. err = Some (ErrPhaseFailed (int ((i # is) ! k) + 1) e))))"
      by (intro exI[of _ "Suc k"])
    with st fr show ?thesis by simp
  qed
qed

lemma executeLoop_trace:
  assumes "executeLoop E is (plan, ex, tr) = (err, plan', ex', tr')"
  shows "\<exists>new. tr' = tr @ new \<and> filesExtend plan plan' new \<and>
           (\<exists>k\<le>length is. started new = take k is \<and> (err = None \<longrightarrow> k = length is))"
  using assms
proof (induction "is" arbitrary: plan ex tr)
  case Nil
  then show ?case by (simp add: filesExtend_refl)
next
  case (Cons i "is")
  from Cons.prems show ?case
  proof (cases rule: executeLoop_Cons_cases)
    case (stop e s1)
    hence it: "executeIteration E i (plan, ex, tr) = (err, plan', ex', tr')" by simp
    have ne: "err \<noteq> None" using stop by simp
    from executeIteration_trace[OF it] obtain new where
      n: "tr' = tr @ new" "filesExtend plan plan' new"
      "new = [] \<or> (\<exists>rest. new = PhaseStarted i # rest \<and> started rest = [])"
      by blast
    from n(3) have "started new = take 0 (i # is) \<or> started new = take 1 (i # is)"
      by auto
    with ne have "\<exists>k\<le>length (i # is). started new = take k (i # is) \<and>
        (err = None \<longrightarrow> k = length (i # is))"
      by (metis One_nat_def Suc_leI le0 length_Cons zero_less_Suc)
    with n show ?thesis by blast
  next
    case (go s1)
    obtain plan1 ex1 tr1 where s1: "s1 = (plan1, ex1, tr1)" by (cases s1)
    from go(1) have it: "executeIteration E i (plan, ex, tr) = (None, plan1, ex1, tr1)"
      by (simp add: s1)
    from executeIteration_trace[OF it] obtain n1 where
      n1: "tr1 = tr @ n1" "filesExtend plan plan1 n1" "started n1 = [i]"
      by auto
    from go(2) have lp: "executeLoop E is (plan1, ex1, tr1) = (err, plan', ex', tr')"
      by (simp add: s1)
    from Cons.IH[OF lp] obtain n2 k where
      n2: "tr' = tr1 @ n2" "filesExtend plan1 plan' n2" "k \<le> length is"
      "started n2 = take k is" "err = None \<longrightarrow> k = length is"
      by blast
    have "tr' = tr @ (n1 @ n2)" using n1 n2 by simp
    moreover have "filesExtend plan plan' (n1 @ n2)"
      using n1(2) n2(2) by (rule filesExtend_trans)
    moreover have "Suc k \<le> length (i # is) \<and> started (n1 @ n2) = take (Suc k) (i # is) \<and>
        (err = None \<longrightarrow> Suc k = length (i # is))"
      using n1(3) n2(3,4,5) by simp
    ultimately show ?thesis by blast
  qed
qed

lemma executeLoop_phases:
  assumes "executeLoop E is (plan, ex, tr) = (err, plan', ex', tr')"
    and "\<forall>i\<in>set is. i < length (Plan_Phases plan)"
  shows "(\<forall>j. j \<notin> set is \<longrightarrow> Plan_Phases plan' ! j = Plan_Phases plan ! j) \<and>
     (\<forall>j. Phase_ID (Plan_Phases plan' ! j) = Phase_ID (Plan_Phases plan ! j) \<and>
          Phase_Name (Plan_Phases plan' ! j) = Phase_Name (Plan_Phases plan ! j) \<and>
          Phase_Dependencies (Plan_Phases plan' ! j) =
            Phase_Dependencies (Plan_Phases plan ! j) \<and>
          (Phase_Status (Plan_Phases plan' ! j) = Phase_Status (Plan_Phases plan ! j) \<or>
           Phase_Status (Plan_Phases plan' ! j) = PhaseStatusInProgress \<or>
           Phase_Status (Plan_Phases plan' ! j) = PhaseStatusCompleted)) \<and>
     (\<forall>n e. err = Some (ErrPhaseFailed n e) \<longrightarrow>
        Phase_Status (Plan_Phases plan' ! nat (n - 1)) = PhaseStatusInProgress)"
  using assms
proof (induction "is" arbitrary: plan ex tr)
  case Nil
  then show ?case by simp
next
  case (Cons i "is")
  have i: "i < length (Plan_Phases plan)" using Cons.prems(2) by simp
  from Cons.prems(1) show ?case
  proof (cases rule: executeLoop_Cons_cases)
    case (stop e s1)
    hence it: "executeIteration E i (plan, ex, tr) = (err, plan', ex', tr')" by simp
    note ph = executeIteration_phases[OF it i]
    from executeIteration_state[OF it] have
      "\<forall>n e. err = Some (ErrPhaseFailed n e) \<longrightarrow> n = int i + 1"
      by auto
    hence "\<forall>n e. err = Some (ErrPhaseFailed n e) \<longrightarrow>
        Phase_Status (Plan_Phases plan' ! nat (n - 1)) = PhaseStatusInProgress"
      using ph by auto
    moreover have "\<forall>j. Phase_ID (Plan_Phases plan' ! j) = Phase_ID (Plan_Phases plan ! j) \<and>
          Phase_Name (Plan_Phases plan' ! j) = Phase_Name (Plan_Phases plan ! j) \<and>
          Phase_Dependencies (Plan_Phases plan' ! j) =
            Phase_Dependencies (Plan_Phases plan ! j) \<and>
          (Phase_Status (Plan_Phases plan' ! j) = Phase_Status (Plan_Phases plan ! j) \<or>
           Phase_Status (Plan_Phases plan' ! j) = PhaseStatusInProgress \<or>
           Phase_Status (Plan_Phases plan' ! j) = PhaseStatusCompleted)"
      using ph by (metis (full_types))
    moreover have "\<forall>j. j \<notin> set (i # is) \<longrightarrow> Plan_Phases plan' ! j = Plan_Phases plan ! j"
      using ph by simp
    ultimately show ?thesis by blast
  next
    case (go s1)
    obtain plan1 ex1 tr1 where s1: "s1 = (plan1, ex1, tr1)" by (cases s1)
    from go(1) have it: "executeIteration E i (plan, ex, tr) = (None, plan1, ex1, tr1)"
      by (simp add: s1)
    note ph = executeIteration_phases[OF it i]
    have len: "length (Plan_Phases plan1) = length (Plan_Phases plan)"
      using executeIteration_state[OF it] by simp
    from go(2) have lp: "executeLoop E is (plan1, ex1, tr1) = (err, plan', ex', tr')"
      by (simp add: s1)
    have "\<forall>i\<in>set is. i < length (Plan_Phases plan1)"
      using Cons.prems(2) len by simp
    note ih = Cons.IH[OF lp this]
    have a: "\<forall>j. j \<notin> set (i # is) \<longrightarrow> Plan_Phases plan' ! j = Plan_Phases plan ! j"
      using ih ph by simp
    have b: "\<forall>j. Phase_ID (Plan_Phases plan' ! j) = Phase_ID (Plan_Phases plan ! j) \<and>
          Phase_Name (Plan_Phases plan' ! j) = Phase_Name (Plan_Phases plan ! j) \<and>
          Phase_Dependencies (Plan_Phases plan' ! j) =
            Phase_Dependencies (Plan_Phases plan ! j) \<and>
          (Phase_Status (Plan_Phases plan' ! j) = Phase_Status (Plan_Phases plan ! j) \<or>
           Phase_Status (Plan_Phases plan' ! j) = PhaseStatusInProgress \<or>
           Phase_Status (Plan_Phases plan' ! j) = PhaseStatusCompleted)"
    proof
      fix j
      show "Phase_ID (Plan_Phases plan' ! j) = Phase_ID (Plan_Phases plan ! j) \<and>
          Phase_Name (Plan_Phases plan' ! j) = Phase_Name (Plan_Phases plan ! j) \<and>
          Phase_Dependencies (Plan_Phases plan' ! j) =
            Phase_Dependencies (Plan_Phases plan ! j) \<and>
          (Phase_Status (Plan_Phases plan' ! j) = Phase_Status (Plan_Phases plan ! j) \<or>
           Phase_Status (Plan_Phases plan' ! j) = PhaseStatusInProgress \<or>
           Phase_Status (Plan_Phases plan' ! j) = PhaseStatusCompleted)"
      proof (cases "j = i")
        case True
        with ih ph show ?thesis by metis
      next
        case False
        with ph have "Plan_Phases plan1 ! j = Plan_Phases plan ! j" by simp
        with ih show ?thesis by metis
      qed
    qed
    from a b ih show ?thesis by blast
  qed
qed


section \<open>Execute as a whole\<close>

lemma initDirectories_trace:
  "initDirectories E dirs tr = (err, tr') \<Longrightarrow> \<exists>new. tr' = tr @ new \<and> list_all plain new"
proof (induction dirs arbitrary: tr)
  case Nil
  then show ?case by simp
next
  case (Cons dir dirs)
  show ?case
  proof (cases "dir = ''.'' \<or> dir = []")
    case True
    with Cons.prems have "initDirectories E dirs tr = (err, tr')" by auto
    from Cons.IH[OF this] show ?thesis .
  next
    case False
    show ?thesis
    proof (cases "mkdir_ok E tr (TrimSuffix dir ''/'')")
      case True
      with False Cons.prems have
        "initDirectories E dirs (tr @ [MkdirAll (TrimSuffix dir ''/'') True]) = (err, tr')"
        by (simp add: Let_def)
      from Cons.IH[OF this] obtain new where
        "tr' = (tr @ [MkdirAll (TrimSuffix dir ''/'') True]) @ new" "list_all plain new"
        by blast
      then show ?thesis
        by (intro exI[of _ "MkdirAll (TrimSuffix dir ''/'') True # new"]) simp
    next
      case nok: False
      with False Cons.prems show ?thesis by (auto simp: Let_def)
    qed
  qed
qed

lemma initProjectStructure_trace:
  "\<exists>new. snd (initProjectStructure E plan tr) = tr @ new \<and> list_all plain new"
proof (cases "Plan_FileStructure plan")
  case None
  then show ?thesis by (simp add: initProjectStructure_def)
next
  case (Some fs)
  show ?thesis
  proof (cases "length fs = 0")
    case True
    with Some show ?thesis by (simp add: initProjectStructure_def)
  next
    case False
    obtain err tr' where r: "initDirectories E (map fst fs) tr = (err, tr')"
      by (cases "initDirectories E (map fst fs) tr")
    from initDirectories_trace[OF r] r Some False show ?thesis
      by (simp add: initProjectStructure_def)
  qed
qed

text \<open>What the statements before the loop do.\<close>

lemma Execute_startup_result:
  assumes "Execute_startup E plan tr = (plan0, tr0)"
  shows "Plan_Phases plan0 = Plan_Phases plan"
    and "Plan_ID plan0 = Plan_ID plan"
    and "Plan_State plan0 = (Plan_State plan)
          \<lparr>State_Status := ExecutionStatusRunning,
           State_StartedAt := (case State_StartedAt (Plan_State plan) of
              None \<Rightarrow> Some (time_Now E tr) | Some t \<Rightarrow> Some t),
           State_CurrentPhase := max 0 (State_CurrentPhase (Plan_State plan))\<rparr>"
    and "Plan_Manifest plan0 \<noteq> None"
    and "createdPaths plan0 = createdPaths plan"
    and "\<exists>new. tr0 = tr @ new \<and> list_all plain new"
proof -
  let ?st1 = "(Plan_State plan)
          \<lparr>State_Status := ExecutionStatusRunning,
           State_StartedAt := (case State_StartedAt (Plan_State plan) of
              None \<Rightarrow> Some (time_Now E tr) | Some t \<Rightarrow> Some t),
           State_CurrentPhase := (if State_CurrentPhase (Plan_State plan) < 0 then 0
              else State_CurrentPhase (Plan_State plan))\<rparr>"
  let ?plan1 = "plan\<lparr>Plan_State := ?st1\<rparr>"
  let ?plan2 = "case Plan_Manifest ?plan1 of
               Some m \<Rightarrow> ?plan1
             | None \<Rightarrow>
                 ?plan1\<lparr>Plan_Manifest := Some
                   (case Plan_FileStructure ?plan1 of
                      None \<Rightarrow> NewProjectManifest (Plan_Title ?plan1) ''.''
                    | Some fs \<Rightarrow> (NewProjectManifest (Plan_Title ?plan1) ''.'')
                        \<lparr>Manifest_FileStructure := PlanStructure\<rparr>)\<rparr>"
  from assms have p0: "plan0 = ?plan2" and t0: "tr0 = snd (initProjectStructure E ?plan2 tr)"
    by (auto simp: Execute_startup_def Let_def)
  show "Plan_Phases plan0 = Plan_Phases plan"
    unfolding p0 by (simp split: option.splits)
  show "Plan_ID plan0 = Plan_ID plan"
    unfolding p0 by (simp split: option.splits)
  have "max 0 (State_CurrentPhase (Plan_State plan)) =
      (if State_CurrentPhase (Plan_State plan) < 0 then 0
       else State_CurrentPhase (Plan_State plan))"
    by simp
  then show "Plan_State plan0 = (Plan_State plan)
          \<lparr>State_Status := ExecutionStatusRunning,
           State_StartedAt := (case State_StartedAt (Plan_State plan) of
              None \<Rightarrow> Some (time_Now E tr) | Some t \<Rightarrow> Some t),
           State_CurrentPhase := max 0 (State_CurrentPhase (Plan_State plan))\<rparr>"
    unfolding p0 by (simp split: option.splits)
  show "Plan_Manifest plan0 \<noteq> None"
    unfolding p0 by (simp split: option.splits)
  show "createdPaths plan0 = createdPaths plan"
    unfolding p0 by (simp add: createdPaths_def NewProjectManifest_def split: option.splits)
  show "\<exists>new. tr0 = tr @ new \<and> list_all plain new"
    unfolding t0 by (rule initProjectStructure_trace)
qed

text \<open>\<open>Execute\<close> is its startup, its loop and, when the loop ends without an error, the
  two assignments after it.\<close>

lemma Execute_cases:
  assumes "Execute E ex plan tr = (err, plan', ex', tr')"
  obtains plan0 tr0 plan1 where "Execute_startup E plan tr = (plan0, tr0)"
    "executeLoop E (phaseRange plan0) (plan0, ex, tr0) = (err, plan1, ex', tr')"
    "err \<noteq> None \<longrightarrow> plan' = plan1"
    "err = None \<longrightarrow> plan' = plan1\<lparr>Plan_State := (Plan_State plan1)
                  \<lparr>State_Status := ExecutionStatusCompleted,
                   State_CompletedAt := Some (time_Now E tr')\<rparr>\<rparr>"
proof -
  obtain plan0 tr0 where su: "Execute_startup E plan tr = (plan0, tr0)"
    by (cases "Execute_startup E plan tr")
  obtain e1 plan1 ex1 tr1 where
    lp: "executeLoop E (phaseRange plan0) (plan0, ex, tr0) = (e1, plan1, ex1, tr1)"
    by (cases "executeLoop E (phaseRange plan0) (plan0, ex, tr0)")
  show thesis
  proof (cases e1)
    case None
    with su lp assms show ?thesis
      by (intro that[of plan0 tr0 plan1]) (auto simp: Execute_def)
  next
    case (Some e)
    with su lp assms show ?thesis
      by (intro that[of plan0 tr0 plan1]) (auto simp: Execute_def)
  qed
qed

lemma Execute_upto_cases:
  assumes "Execute_upto E k ex plan tr = (err, plan', ex', tr')"
  obtains plan0 tr0 where "Execute_startup E plan tr = (plan0, tr0)"
    "executeLoop E (take k (phaseRange plan0)) (plan0, ex, tr0) = (err, plan', ex', tr')"
proof -
  obtain plan0 tr0 where su: "Execute_startup E plan tr = (plan0, tr0)"
    by (cases "Execute_startup E plan tr")
  with assms show thesis
    by (intro that[of plan0 tr0]) (auto simp: Execute_upto_def)
qed

lemma phaseRange_startup:
  assumes "Execute_startup E plan tr = (plan0, tr0)"
  shows "phaseRange plan0 =
      [nat (State_CurrentPhase (Plan_State plan)) ..< length (Plan_Phases plan)]"
proof -
  have "nat (max 0 c) = nat c" for c :: int by simp
  with Execute_startup_result(1,3)[OF assms] show ?thesis by (simp add: phaseRange_def)
qed

section \<open>The final state of a successful run\<close>

lemma Execute_success_state:
  assumes "Execute E ex plan tr = (None, plan', ex', tr')"
  shows "State_Status (Plan_State plan') = ExecutionStatusCompleted"
    and "length (Plan_Phases plan') = length (Plan_Phases plan)"
    and "State_FailedPhases (Plan_State plan') = State_FailedPhases (Plan_State plan)"
    and "State_CompletedPhases (Plan_State plan') =
       State_CompletedPhases (Plan_State plan) @
       map int [nat (State_CurrentPhase (Plan_State plan)) ..< length (Plan_Phases plan)]"
    and "State_CurrentPhase (Plan_State plan') =
       max (max 0 (State_CurrentPhase (Plan_State plan))) (int (length (Plan_Phases plan)))"
proof -
  from assms obtain plan0 tr0 plan1 where
    su: "Execute_startup E plan tr = (plan0, tr0)"
    and lp: "executeLoop E (phaseRange plan0) (plan0, ex, tr0) = (None, plan1, ex', tr')"
    and fin: "plan' = plan1\<lparr>Plan_State := (Plan_State plan1)
                  \<lparr>State_Status := ExecutionStatusCompleted,
                   State_CompletedAt := Some (time_Now E tr')\<rparr>\<rparr>"
    by (cases rule: Execute_cases) simp
  note s0 = Execute_startup_result(1,3)[OF su]
  let ?c = "State_CurrentPhase (Plan_State plan)"
  let ?n = "length (Plan_Phases plan)"
  have rng: "phaseRange plan0 = [nat ?c ..< ?n]" by (rule phaseRange_startup[OF su])
  from executeLoop_state[OF lp] have
    len: "length (Plan_Phases plan1) = length (Plan_Phases plan0)"
    and comp: "State_CompletedPhases (Plan_State plan1) =
          State_CompletedPhases (Plan_State plan0) @ map int (phaseRange plan0)"
    and fl: "State_FailedPhases (Plan_State plan1) = State_FailedPhases (Plan_State plan0)"
    and cur: "State_CurrentPhase (Plan_State plan1) =
             (if phaseRange plan0 = [] then State_CurrentPhase (Plan_State plan0)
              else int (last (phaseRange plan0)) + 1)"
    by auto
  show "State_Status (Plan_State plan') = ExecutionStatusCompleted" by (simp add: fin)
  show "length (Plan_Phases plan') = ?n" using len s0 by (simp add: fin)
  show "State_FailedPhases (Plan_State plan') = State_FailedPhases (Plan_State plan)"
    using fl s0 by (simp add: fin)
  show "State_CompletedPhases (Plan_State plan') =
       State_CompletedPhases (Plan_State plan) @ map int [nat ?c ..< ?n]"
    using comp s0 rng by (simp add: fin)
  have "State_CurrentPhase (Plan_State plan1) = max (max 0 ?c) (int ?n)"
  proof (cases "nat ?c < ?n")
    case True
    hence "last [nat ?c ..< ?n] = ?n - 1" by simp
    with True cur rng show ?thesis by auto
  next
    case False
    with cur rng s0 show ?thesis by auto
  qed
  then show "State_CurrentPhase (Plan_State plan') = max (max 0 ?c) (int ?n)"
    by (simp add: fin)
qed

text \<open>
  Claim C1, amended. When \<open>Execute\<close> returns no error, the status is completed,
  \<open>failedPhases\<close> is what it was before the call, \<open>completedPhases\<close> is the list before the
  call followed by the indices from the starting phase to the last one, and
  \<open>currentPhase\<close> is the larger of the starting phase and the number of phases. So
  \<open>currentPhase = len(phases)\<close>, \<open>len(completedPhases) = len(phases)\<close> and an empty
  \<open>failedPhases\<close> hold for a run that starts from a consistent state: a new or reset plan,
  the plan without phases, a plan cut off between two phases.
\<close>

theorem successful_execute_final_state:
  assumes "Execute E ex plan tr = (None, plan', ex', tr')"
  shows "State_Status (Plan_State plan') = ExecutionStatusCompleted \<and>
     length (Plan_Phases plan') = length (Plan_Phases plan) \<and>
     State_FailedPhases (Plan_State plan') = State_FailedPhases (Plan_State plan) \<and>
     State_CompletedPhases (Plan_State plan') =
       State_CompletedPhases (Plan_State plan) @
       map int [nat (State_CurrentPhase (Plan_State plan)) ..< length (Plan_Phases plan)] \<and>
     State_CurrentPhase (Plan_State plan') =
       max (max 0 (State_CurrentPhase (Plan_State plan))) (int (length (Plan_Phases plan))) \<and>
     (consistentStart plan \<longrightarrow>
        State_CurrentPhase (Plan_State plan') = int (length (Plan_Phases plan')) \<and>
        length (State_CompletedPhases (Plan_State plan')) = length (Plan_Phases plan') \<and>
        State_FailedPhases (Plan_State plan') = [])"
proof -
  note s = Execute_success_state[OF assms]
  have "consistentStart plan \<longrightarrow>
        State_CurrentPhase (Plan_State plan') = int (length (Plan_Phases plan')) \<and>
        length (State_CompletedPhases (Plan_State plan')) = length (Plan_Phases plan') \<and>
        State_FailedPhases (Plan_State plan') = []"
    unfolding s consistentStart_def by auto
  with s show ?thesis by simp
qed

theorem successful_execute_final_state_witness:
  "fst clean_run = None \<and> consistentStart two_phase_plan \<and>
   State_Status (Plan_State (fst (snd clean_run))) = ExecutionStatusCompleted \<and>
   State_CurrentPhase (Plan_State (fst (snd clean_run))) = 2 \<and>
   State_CompletedPhases (Plan_State (fst (snd clean_run))) = [0, 1] \<and>
   State_FailedPhases (Plan_State (fst (snd clean_run))) = [] \<and>
   fst empty_run = None \<and> consistentStart (example_plan []) \<and>
   State_Status (Plan_State (fst (snd empty_run))) = ExecutionStatusCompleted \<and>
   State_CurrentPhase (Plan_State (fst (snd empty_run))) = 0 \<and>
   State_CompletedPhases (Plan_State (fst (snd empty_run))) = [] \<and>
   State_FailedPhases (Plan_State (fst (snd empty_run))) = []"
proof -
  have ok: "fst clean_run = None" by code_simp
  have cs: "consistentStart two_phase_plan" by code_simp
  have n: "length (Plan_Phases two_phase_plan) = 2"
    "State_CurrentPhase (Plan_State two_phase_plan) = 0"
    "State_CompletedPhases (Plan_State two_phase_plan) = []"
    "State_FailedPhases (Plan_State two_phase_plan) = []"
    by code_simp+
  have "Execute (example_env True None) example_executor two_phase_plan [] =
      (None, fst (snd clean_run), fst (snd (snd clean_run)), snd (snd (snd clean_run)))"
    using ok by (simp add: clean_run_def prod_eq_iff)
  note a = successful_execute_final_state[OF this]
  have ok2: "fst empty_run = None" by code_simp
  have cs2: "consistentStart (example_plan [])" by code_simp
  have n2: "length (Plan_Phases (example_plan [])) = 0"
    "State_CurrentPhase (Plan_State (example_plan [])) = 0"
    "State_CompletedPhases (Plan_State (example_plan [])) = []"
    "State_FailedPhases (Plan_State (example_plan [])) = []"
    by code_simp+
  have "Execute (example_env True None) example_executor (example_plan []) [] =
      (None, fst (snd empty_run), fst (snd (snd empty_run)), snd (snd (snd empty_run)))"
    using ok2 by (simp add: empty_run_def prod_eq_iff)
  note b = successful_execute_final_state[OF this]
  have u: "[0..<2] = [0, Suc 0]" by (simp add: upt_rec)
  from a b ok cs n ok2 cs2 n2 u show ?thesis by simp
qed

text \<open>After a failed run, a second \<open>Execute\<close> on the same plan succeeds and leaves the index
  of the failed phase in \<open>failedPhases\<close>.\<close>

theorem resumed_run_keeps_failed_phase:
  "fst first_run = Some (ErrPhaseFailed 1 (ErrAgentExecute ''deadline exceeded'')) \<and>
   State_FailedPhases (Plan_State (fst (snd first_run))) = [0] \<and>
   fst second_run = None \<and>
   State_Status (Plan_State (fst (snd second_run))) = ExecutionStatusCompleted \<and>
   State_FailedPhases (Plan_State (fst (snd second_run))) = [0] \<and>
   length (Plan_Phases (fst (snd second_run))) = 1"
  by code_simp

section \<open>The two lists of the execution state\<close>

lemma executeLoop_lists:
  assumes lp: "executeLoop E is (plan, ex, tr) = (err, plan', ex', tr')"
    and bound: "\<forall>i\<in>set is. i < length (Plan_Phases plan)"
  shows "indicesValid plan \<Longrightarrow> indicesValid plan'"
    and "distinct is \<Longrightarrow> listsDisjoint plan \<Longrightarrow>
         \<forall>i\<in>set is. int i \<notin> set (State_CompletedPhases (Plan_State plan)) \<and>
                   int i \<notin> set (State_FailedPhases (Plan_State plan)) \<Longrightarrow>
         listsDisjoint plan'"
proof -
  let ?C = "State_CompletedPhases (Plan_State plan)"
  let ?F = "State_FailedPhases (Plan_State plan)"
  from executeLoop_state[OF lp] have
    len: "length (Plan_Phases plan') = length (Plan_Phases plan)"
    and "\<exists>k\<le>length is.
       State_CompletedPhases (Plan_State plan') = ?C @ map int (take k is) \<and>
       (State_FailedPhases (Plan_State plan') = ?F \<or>
        k < length is \<and> State_FailedPhases (Plan_State plan') = ?F @ [int (is ! k)])"
    by (cases "err = None"; blast)+
  then obtain k where k: "k \<le> length is"
    and comp: "State_CompletedPhases (Plan_State plan') = ?C @ map int (take k is)"
    and fl: "State_FailedPhases (Plan_State plan') = ?F \<or>
       k < length is \<and> State_FailedPhases (Plan_State plan') = ?F @ [int (is ! k)]"
    by blast
  have tk: "set (take k is) \<subseteq> set is" by (rule set_take_subset)
  {
    assume v: "indicesValid plan"
    have "\<forall>i\<in>set (take k is). i < length (Plan_Phases plan)" using bound tk by blast
    moreover have "k < length is \<Longrightarrow> is ! k < length (Plan_Phases plan)"
      using bound by simp
    ultimately show "indicesValid plan'"
      using v comp fl len by (auto simp: indicesValid_def list_all_iff)
  }
  {
    assume d: "distinct is" and dj: "listsDisjoint plan"
      and fresh: "\<forall>i\<in>set is. int i \<notin> set ?C \<and> int i \<notin> set ?F"
    have a: "\<forall>i\<in>set (take k is). int i \<notin> set ?F" using fresh tk by blast
    have b: "k < length is \<Longrightarrow> int (is ! k) \<notin> set ?C" using fresh by simp
    have c: "k < length is \<Longrightarrow> is ! k \<notin> set (take k is)"
      using d by (metis distinct_take id_take_nth_drop distinct_append not_distinct_conv_prefix
          append.assoc append_Cons in_set_conv_decomp)
    show "listsDisjoint plan'"
      using dj comp fl a b c by (auto simp: listsDisjoint_def list_all_iff)
  }
qed

lemma startup_lists:
  assumes su: "Execute_startup E plan tr = (plan0, tr0)"
  shows "indicesValid plan0 = indicesValid plan"
    and "listsDisjoint plan0 = listsDisjoint plan"
    and "\<forall>i\<in>set (phaseRange plan0). i < length (Plan_Phases plan0)"
    and "distinct (phaseRange plan0)"
    and "listsBehind plan \<Longrightarrow>
         \<forall>i\<in>set (phaseRange plan0).
           int i \<notin> set (State_CompletedPhases (Plan_State plan0)) \<and>
           int i \<notin> set (State_FailedPhases (Plan_State plan0))"
proof -
  note s0 = Execute_startup_result(1,3)[OF su]
  note rng = phaseRange_startup[OF su]
  show "indicesValid plan0 = indicesValid plan" by (simp add: indicesValid_def s0)
  show "listsDisjoint plan0 = listsDisjoint plan" by (simp add: listsDisjoint_def s0)
  show "\<forall>i\<in>set (phaseRange plan0). i < length (Plan_Phases plan0)" by (simp add: rng s0)
  show "distinct (phaseRange plan0)" by (simp add: rng)
  have eqs: "State_CompletedPhases (Plan_State plan0) = State_CompletedPhases (Plan_State plan)"
    "State_FailedPhases (Plan_State plan0) = State_FailedPhases (Plan_State plan)"
    by (simp_all add: s0)
  assume "listsBehind plan"
  hence lb: "\<And>j. j \<in> set (State_CompletedPhases (Plan_State plan)) \<union>
             set (State_FailedPhases (Plan_State plan)) \<Longrightarrow>
           j < max 0 (State_CurrentPhase (Plan_State plan))"
    by (auto simp: listsBehind_def list_all_iff)
  show "\<forall>i\<in>set (phaseRange plan0).
           int i \<notin> set (State_CompletedPhases (Plan_State plan0)) \<and>
           int i \<notin> set (State_FailedPhases (Plan_State plan0))"
  proof
    fix i
    assume "i \<in> set (phaseRange plan0)"
    hence ge: "max 0 (State_CurrentPhase (Plan_State plan)) \<le> int i"
      by (auto simp: rng)
    have "int i \<notin> set (State_CompletedPhases (Plan_State plan)) \<union>
             set (State_FailedPhases (Plan_State plan))"
    proof
      assume "int i \<in> set (State_CompletedPhases (Plan_State plan)) \<union>
             set (State_FailedPhases (Plan_State plan))"
      from lb[OF this] ge show False by linarith
    qed
    then show "int i \<notin> set (State_CompletedPhases (Plan_State plan0)) \<and>
           int i \<notin> set (State_FailedPhases (Plan_State plan0))"
      by (simp add: eqs)
  qed
qed

lemma Execute_lists:
  assumes r: "Execute E ex plan tr = (err, plan', ex', tr')"
  shows "indicesValid plan \<Longrightarrow> indicesValid plan'"
    and "listsDisjoint plan \<Longrightarrow> listsBehind plan \<Longrightarrow> listsDisjoint plan'"
proof -
  from r obtain plan0 tr0 plan1 where
    su: "Execute_startup E plan tr = (plan0, tr0)"
    and lp: "executeLoop E (phaseRange plan0) (plan0, ex, tr0) = (err, plan1, ex', tr')"
    and fin: "err \<noteq> None \<longrightarrow> plan' = plan1"
      "err = None \<longrightarrow> plan' = plan1\<lparr>Plan_State := (Plan_State plan1)
                  \<lparr>State_Status := ExecutionStatusCompleted,
                   State_CompletedAt := Some (time_Now E tr')\<rparr>\<rparr>"
    by (rule Execute_cases)
  note st = startup_lists[OF su]
  have v: "indicesValid plan' = indicesValid plan1"
    using fin by (cases "err = None") (simp_all add: indicesValid_def)
  have d: "listsDisjoint plan' = listsDisjoint plan1"
    using fin by (cases "err = None") (simp_all add: listsDisjoint_def)
  show "indicesValid plan \<Longrightarrow> indicesValid plan'"
    using executeLoop_lists(1)[OF lp st(3)] st(1) v by simp
  show "listsDisjoint plan \<Longrightarrow> listsBehind plan \<Longrightarrow> listsDisjoint plan'"
    using executeLoop_lists(2)[OF lp st(3) st(4)] st(2) st(5) d by simp
qed

lemma Execute_upto_lists:
  assumes r: "Execute_upto E k ex plan tr = (err, plan', ex', tr')"
  shows "indicesValid plan \<Longrightarrow> indicesValid plan'"
    and "listsDisjoint plan \<Longrightarrow> listsBehind plan \<Longrightarrow> listsDisjoint plan'"
proof -
  from r obtain plan0 tr0 where
    su: "Execute_startup E plan tr = (plan0, tr0)"
    and lp: "executeLoop E (take k (phaseRange plan0)) (plan0, ex, tr0) =
              (err, plan', ex', tr')"
    by (rule Execute_upto_cases)
  note st = startup_lists[OF su]
  have sub: "set (take k (phaseRange plan0)) \<subseteq> set (phaseRange plan0)"
    by (rule set_take_subset)
  have b: "\<forall>i\<in>set (take k (phaseRange plan0)). i < length (Plan_Phases plan0)"
    using st(3) sub by blast
  have ds: "distinct (take k (phaseRange plan0))" using st(4) by simp
  show "indicesValid plan \<Longrightarrow> indicesValid plan'"
    using executeLoop_lists(1)[OF lp b] st(1) by simp
  show "listsDisjoint plan \<Longrightarrow> listsBehind plan \<Longrightarrow> listsDisjoint plan'"
  proof -
    assume dj: "listsDisjoint plan" and lb: "listsBehind plan"
    from st(5)[OF lb] sub have "\<forall>i\<in>set (take k (phaseRange plan0)).
           int i \<notin> set (State_CompletedPhases (Plan_State plan0)) \<and>
           int i \<notin> set (State_FailedPhases (Plan_State plan0))"
      by blast
    from executeLoop_lists(2)[OF lp b ds _ this] dj st(2) show ?thesis by simp
  qed
qed

text \<open>
  Claim C2, amended. If every index in \<open>completedPhases\<close> and \<open>failedPhases\<close> is an index of
  \<open>phases\<close> when \<open>Execute\<close> is called, so it is after every number of phases the loop has
  gone through and when \<open>Execute\<close> has returned, whatever it returns. If moreover the two
  lists are disjoint and hold only indices below the phase the call starts at, they are
  disjoint at each of these moments.
\<close>

theorem state_lists_invariants:
  assumes "indicesValid plan"
  shows "indicesValid (fst (snd (Execute_upto E k ex plan tr))) \<and>
     indicesValid (fst (snd (Execute E ex plan tr))) \<and>
     (listsDisjoint plan \<and> listsBehind plan \<longrightarrow>
      listsDisjoint (fst (snd (Execute_upto E k ex plan tr))) \<and>
      listsDisjoint (fst (snd (Execute E ex plan tr))))"
proof -
  obtain e1 p1 x1 t1 where u: "Execute_upto E k ex plan tr = (e1, p1, x1, t1)"
    by (cases "Execute_upto E k ex plan tr")
  obtain e2 p2 x2 t2 where x: "Execute E ex plan tr = (e2, p2, x2, t2)"
    by (cases "Execute E ex plan tr")
  from Execute_upto_lists[OF u] Execute_lists[OF x] assms show ?thesis
    by (auto simp: u x)
qed

theorem state_lists_invariants_witness:
  "indicesValid one_phase_plan \<and> listsDisjoint one_phase_plan \<and> listsBehind one_phase_plan \<and>
   indicesValid (fst (snd first_run)) \<and> listsDisjoint (fst (snd first_run)) \<and>
   State_FailedPhases (Plan_State (fst (snd first_run))) = [0] \<and>
   indicesValid (fst (snd (Execute_upto (example_env True None) 1 example_executor
      two_phase_plan []))) \<and>
   listsDisjoint (fst (snd (Execute_upto (example_env True None) 1 example_executor
      two_phase_plan []))) \<and>
   State_CompletedPhases (Plan_State (fst (snd (Execute_upto (example_env True None) 1
      example_executor two_phase_plan [])))) = [0]"
proof -
  have a: "indicesValid one_phase_plan" "listsDisjoint one_phase_plan"
    "listsBehind one_phase_plan"
    by code_simp+
  have b: "indicesValid two_phase_plan" "listsDisjoint two_phase_plan"
    "listsBehind two_phase_plan"
    by code_simp+
  have c: "State_FailedPhases (Plan_State (fst (snd first_run))) = [0]"
    "State_CompletedPhases (Plan_State (fst (snd (Execute_upto (example_env True None) 1
      example_executor two_phase_plan [])))) = [0]"
    by code_simp+
  from state_lists_invariants[OF a(1), of "example_env True (Some 0)" 1 example_executor "[]"]
    state_lists_invariants[OF b(1), of "example_env True None" 1 example_executor "[]"]
    a b c
  show ?thesis by (simp add: first_run_def)
qed

text \<open>After the failed run and the second run of the one-phase plan, phase 0 is in both
  lists.\<close>

theorem resumed_run_lists_overlap:
  "indicesValid one_phase_plan \<and> listsDisjoint one_phase_plan \<and>
   fst first_run \<noteq> None \<and> fst second_run = None \<and>
   State_CompletedPhases (Plan_State (fst (snd second_run))) = [0] \<and>
   State_FailedPhases (Plan_State (fst (snd second_run))) = [0] \<and>
   \<not> listsDisjoint (fst (snd second_run))"
  by code_simp

section \<open>What makes a phase fail\<close>





section \<open>The status of a phase\<close>

lemma Execute_phases:
  assumes r: "Execute E ex plan tr = (err, plan', ex', tr')"
  shows "length (Plan_Phases plan') = length (Plan_Phases plan)"
    and "\<forall>j. j \<notin> set [nat (State_CurrentPhase (Plan_State plan)) ..< length (Plan_Phases plan)]
           \<longrightarrow> Plan_Phases plan' ! j = Plan_Phases plan ! j"
    and "\<forall>j. Phase_ID (Plan_Phases plan' ! j) = Phase_ID (Plan_Phases plan ! j) \<and>
          Phase_Name (Plan_Phases plan' ! j) = Phase_Name (Plan_Phases plan ! j) \<and>
          Phase_Dependencies (Plan_Phases plan' ! j) =
            Phase_Dependencies (Plan_Phases plan ! j) \<and>
          (Phase_Status (Plan_Phases plan' ! j) = Phase_Status (Plan_Phases plan ! j) \<or>
           Phase_Status (Plan_Phases plan' ! j) = PhaseStatusInProgress \<or>
           Phase_Status (Plan_Phases plan' ! j) = PhaseStatusCompleted)"
    and "\<forall>n e. err = Some (ErrPhaseFailed n e) \<longrightarrow>
          Phase_Status (Plan_Phases plan' ! nat (n - 1)) = PhaseStatusInProgress \<and>
          State_Status (Plan_State plan') = ExecutionStatusFailed \<and>
          State_FailedPhases (Plan_State plan') =
            State_FailedPhases (Plan_State plan) @ [n - 1]"
proof -
  from r obtain plan0 tr0 plan1 where
    su: "Execute_startup E plan tr = (plan0, tr0)"
    and lp: "executeLoop E (phaseRange plan0) (plan0, ex, tr0) = (err, plan1, ex', tr')"
    and fin: "err \<noteq> None \<longrightarrow> plan' = plan1"
      "err = None \<longrightarrow> plan' = plan1\<lparr>Plan_State := (Plan_State plan1)
                  \<lparr>State_Status := ExecutionStatusCompleted,
                   State_CompletedAt := Some (time_Now E tr')\<rparr>\<rparr>"
    by (rule Execute_cases)
  note s0 = Execute_startup_result(1,3)[OF su]
  note rng = phaseRange_startup[OF su]
  have ph: "Plan_Phases plan' = Plan_Phases plan1"
    using fin by (cases "err = None") simp_all
  have b: "\<forall>i\<in>set (phaseRange plan0). i < length (Plan_Phases plan0)"
    by (simp add: rng s0)
  note lph = executeLoop_phases[OF lp b]
  note lst = executeLoop_state[OF lp]
  show "length (Plan_Phases plan') = length (Plan_Phases plan)"
    using lst by (simp add: ph s0)
  show "\<forall>j. j \<notin> set [nat (State_CurrentPhase (Plan_State plan)) ..< length (Plan_Phases plan)]
           \<longrightarrow> Plan_Phases plan' ! j = Plan_Phases plan ! j"
    using lph unfolding ph rng s0 by blast
  show "\<forall>j. Phase_ID (Plan_Phases plan' ! j) = Phase_ID (Plan_Phases plan ! j) \<and>
          Phase_Name (Plan_Phases plan' ! j) = Phase_Name (Plan_Phases plan ! j) \<and>
          Phase_Dependencies (Plan_Phases plan' ! j) =
            Phase_Dependencies (Plan_Phases plan ! j) \<and>
          (Phase_Status (Plan_Phases plan' ! j) = Phase_Status (Plan_Phases plan ! j) \<or>
           Phase_Status (Plan_Phases plan' ! j) = PhaseStatusInProgress \<or>
           Phase_Status (Plan_Phases plan' ! j) = PhaseStatusCompleted)"
    using lph unfolding ph s0 by blast
  show "\<forall>n e. err = Some (ErrPhaseFailed n e) \<longrightarrow>
          Phase_Status (Plan_Phases plan' ! nat (n - 1)) = PhaseStatusInProgress \<and>
          State_Status (Plan_State plan') = ExecutionStatusFailed \<and>
          State_FailedPhases (Plan_State plan') =
            State_FailedPhases (Plan_State plan) @ [n - 1]"
  proof (intro allI impI)
    fix n e
    assume e: "err = Some (ErrPhaseFailed n e)"
    hence p1: "plan' = plan1" using fin by simp
    from lph e have a: "Phase_Status (Plan_Phases plan1 ! nat (n - 1)) = PhaseStatusInProgress"
      by blast
    from lst e have "\<exists>k. State_FailedPhases (Plan_State plan1) =
              State_FailedPhases (Plan_State plan0) @ [int (phaseRange plan0 ! k)] \<and>
            State_Status (Plan_State plan1) = ExecutionStatusFailed \<and>
            n = int (phaseRange plan0 ! k) + 1"
      by auto
    then have "State_FailedPhases (Plan_State plan1) =
              State_FailedPhases (Plan_State plan) @ [n - 1] \<and>
            State_Status (Plan_State plan1) = ExecutionStatusFailed"
      by (auto simp: s0)
    with a show "Phase_Status (Plan_Phases plan' ! nat (n - 1)) = PhaseStatusInProgress \<and>
          State_Status (Plan_State plan') = ExecutionStatusFailed \<and>
          State_FailedPhases (Plan_State plan') =
            State_FailedPhases (Plan_State plan) @ [n - 1]"
      by (simp add: p1)
  qed
qed

text \<open>
  Claim C10. \<open>executePhase\<close> leaves the phase in progress whether it returns an error or
  not. After \<open>Execute\<close>, every phase has the status it had, \<open>in_progress\<close> or \<open>completed\<close>;
  when \<open>Execute\<close> returns that phase \<open>n\<close> failed, that phase is in progress, and the failure
  is in the state of the plan only: its status is failed and index \<open>n - 1\<close> is the last of
  \<open>failedPhases\<close>. So a plan whose phases are all pending, in progress or completed stays
  so.
\<close>

theorem executor_never_sets_phase_failed:
  assumes "Execute E ex plan tr = (err, plan', ex', tr')"
  shows "(\<forall>j. Phase_Status (Plan_Phases plan' ! j) = Phase_Status (Plan_Phases plan ! j) \<or>
           Phase_Status (Plan_Phases plan' ! j) = PhaseStatusInProgress \<or>
           Phase_Status (Plan_Phases plan' ! j) = PhaseStatusCompleted) \<and>
     (\<forall>n e. err = Some (ErrPhaseFailed n e) \<longrightarrow>
          Phase_Status (Plan_Phases plan' ! nat (n - 1)) = PhaseStatusInProgress \<and>
          State_Status (Plan_State plan') = ExecutionStatusFailed \<and>
          State_FailedPhases (Plan_State plan') =
            State_FailedPhases (Plan_State plan) @ [n - 1]) \<and>
     (list_all (\<lambda>p. executorStatus (Phase_Status p)) (Plan_Phases plan) \<longrightarrow>
      list_all (\<lambda>p. executorStatus (Phase_Status p)) (Plan_Phases plan')) \<and>
     (\<forall>F x p i t. i < length (Plan_Phases p) \<longrightarrow>
        Phase_Status (Plan_Phases (fst (snd (executePhase F x p i t))) ! i) =
          PhaseStatusInProgress)"
proof -
  note ph = Execute_phases[OF assms]
  have a: "\<forall>j. Phase_Status (Plan_Phases plan' ! j) = Phase_Status (Plan_Phases plan ! j) \<or>
           Phase_Status (Plan_Phases plan' ! j) = PhaseStatusInProgress \<or>
           Phase_Status (Plan_Phases plan' ! j) = PhaseStatusCompleted"
    using ph(3) by blast
  have c: "list_all (\<lambda>p. executorStatus (Phase_Status p)) (Plan_Phases plan')"
    if h: "list_all (\<lambda>p. executorStatus (Phase_Status p)) (Plan_Phases plan)"
  proof -
    have "executorStatus (Phase_Status (Plan_Phases plan' ! j))"
      if j: "j < length (Plan_Phases plan')" for j
    proof -
      from j ph(1) h have "executorStatus (Phase_Status (Plan_Phases plan ! j))"
        by (simp add: list_all_length)
      with a show ?thesis unfolding executorStatus_def by metis
    qed
    then show ?thesis by (simp add: list_all_length)
  qed
  have d: "Phase_Status (Plan_Phases (fst (snd (executePhase F x p i t))) ! i) =
          PhaseStatusInProgress" if i: "i < length (Plan_Phases p)" for F x p i t
  proof -
    obtain e p' t' where r: "executePhase F x p i t = (e, p', t')"
      by (cases "executePhase F x p i t")
    from r obtain answers where
      "Plan_Phases p' = (Plan_Phases p)
         [i := (fold markTasks answers
               ((Plan_Phases p ! i)\<lparr>Phase_Status := PhaseStatusInProgress\<rparr>))]"
      by (rule executePhase_plan1)
    with i show ?thesis by (simp add: r)
  qed
  from a ph(4) c d show ?thesis by blast
qed

theorem executor_never_sets_phase_failed_witness:
  "fst first_run = Some (ErrPhaseFailed 1 (ErrAgentExecute ''deadline exceeded'')) \<and>
   list_all (\<lambda>p. executorStatus (Phase_Status p)) (Plan_Phases one_phase_plan) \<and>
   Phase_Status (Plan_Phases (fst (snd first_run)) ! 0) = PhaseStatusInProgress \<and>
   State_Status (Plan_State (fst (snd first_run))) = ExecutionStatusFailed \<and>
   State_FailedPhases (Plan_State (fst (snd first_run))) = [0] \<and>
   list_all (\<lambda>p. executorStatus (Phase_Status p)) (Plan_Phases (fst (snd first_run)))"
proof -
  have e: "fst first_run = Some (ErrPhaseFailed 1 (ErrAgentExecute ''deadline exceeded''))"
    by code_simp
  have s: "list_all (\<lambda>p. executorStatus (Phase_Status p)) (Plan_Phases one_phase_plan)"
    "State_FailedPhases (Plan_State one_phase_plan) = []"
    by code_simp+
  have "Execute (example_env True (Some 0)) example_executor one_phase_plan [] =
      (Some (ErrPhaseFailed 1 (ErrAgentExecute ''deadline exceeded'')),
       fst (snd first_run), fst (snd (snd first_run)), snd (snd (snd first_run)))"
    using e by (simp add: first_run_def prod_eq_iff)
  from executor_never_sets_phase_failed[OF this] e s show ?thesis by simp
qed

section \<open>The trace of a call of Execute\<close>

lemma Execute_trace:
  assumes r: "Execute E ex plan tr = (err, plan', ex', tr')"
  shows "\<exists>new k. tr' = tr @ new \<and>
     k \<le> length [nat (State_CurrentPhase (Plan_State plan)) ..< length (Plan_Phases plan)] \<and>
     started new =
       take k [nat (State_CurrentPhase (Plan_State plan)) ..< length (Plan_Phases plan)] \<and>
     (err = None \<longrightarrow>
        k = length [nat (State_CurrentPhase (Plan_State plan)) ..< length (Plan_Phases plan)]) \<and>
     list_all (\<lambda>p. \<not> unsafePath p) (attempted new) \<and>
     createdPaths plan' = createdPaths plan @ written new \<and>
     list_all (\<lambda>p. p \<notin> set (createdPaths plan)) (attempted new) \<and>
     no_rewrite new"
proof -
  from r obtain plan0 tr0 plan1 where
    su: "Execute_startup E plan tr = (plan0, tr0)"
    and lp: "executeLoop E (phaseRange plan0) (plan0, ex, tr0) = (err, plan1, ex', tr')"
    and fin: "err \<noteq> None \<longrightarrow> plan' = plan1"
      "err = None \<longrightarrow> plan' = plan1\<lparr>Plan_State := (Plan_State plan1)
                  \<lparr>State_Status := ExecutionStatusCompleted,
                   State_CompletedAt := Some (time_Now E tr')\<rparr>\<rparr>"
    by (rule Execute_cases)
  note s0 = Execute_startup_result[OF su]
  note rng = phaseRange_startup[OF su]
  from s0(6) obtain mk where mk: "tr0 = tr @ mk" "list_all plain mk" by blast
  note pm = plain_trace[OF mk(2)]
  from executeLoop_trace[OF lp] obtain n k where
    n: "tr' = tr0 @ n" "filesExtend plan0 plan1 n" "k \<le> length (phaseRange plan0)"
      "started n = take k (phaseRange plan0)" "err = None \<longrightarrow> k = length (phaseRange plan0)"
    by blast
  have cp: "createdPaths plan' = createdPaths plan1"
    using fin by (cases "err = None") (simp_all add: createdPaths_def)
  from n(2) s0(4) have fe: "list_all (\<lambda>p. \<not> unsafePath p) (attempted n)"
    "createdPaths plan1 = createdPaths plan0 @ written n"
    "list_all (\<lambda>p. p \<notin> set (createdPaths plan0)) (attempted n)" "no_rewrite n"
    by (auto simp: filesExtend_def)
  have "tr' = tr @ (mk @ n)" using mk n by simp
  moreover have "started (mk @ n) = take k (phaseRange plan0)" using pm n(4) by simp
  moreover have "list_all (\<lambda>p. \<not> unsafePath p) (attempted (mk @ n))" using pm fe(1) by simp
  moreover have "createdPaths plan' = createdPaths plan @ written (mk @ n)"
    using pm fe(2) cp s0(5) by simp
  moreover have "list_all (\<lambda>p. p \<notin> set (createdPaths plan)) (attempted (mk @ n))"
    using pm fe(3) s0(5) by simp
  moreover have "no_rewrite (mk @ n)" using pm fe(4) by (simp add: no_rewrite_append)
  ultimately show ?thesis using n(3,5) unfolding rng by blast
qed

lemma dependenciesCompleted_cong:
  "Plan_Phases p = Plan_Phases q \<Longrightarrow>
   State_CompletedPhases (Plan_State p) = State_CompletedPhases (Plan_State q) \<Longrightarrow>
   dependenciesCompleted p deps = dependenciesCompleted q deps"
  by (induction deps) (auto split: sum.splits)

lemma areDependenciesMet_cong:
  "Plan_Phases p = Plan_Phases q \<Longrightarrow>
   State_CompletedPhases (Plan_State p) = State_CompletedPhases (Plan_State q) \<Longrightarrow>
   areDependenciesMet p phase = areDependenciesMet q phase"
  by (simp add: areDependenciesMet_def dependenciesCompleted_cong[of p q])

text \<open>The first phase the loop visits is the one \<open>currentPhase\<close> names: it is started when
  its dependencies are met, and otherwise \<open>Execute\<close> returns at once.\<close>

lemma Execute_first_phase:
  assumes r: "Execute E ex plan tr = (err, plan', ex', tr')"
    and lt: "nat (State_CurrentPhase (Plan_State plan)) < length (Plan_Phases plan)"
  shows "areDependenciesMet plan
            (Plan_Phases plan ! nat (State_CurrentPhase (Plan_State plan))) = Inr True \<Longrightarrow>
         \<exists>mk rest. tr' = tr @ mk @
            PhaseStarted (nat (State_CurrentPhase (Plan_State plan))) # rest \<and> list_all plain mk"
    and "areDependenciesMet plan
            (Plan_Phases plan ! nat (State_CurrentPhase (Plan_State plan))) = Inr False \<Longrightarrow>
         err = Some (ErrDependenciesNotMet
            (Phase_Name (Plan_Phases plan ! nat (State_CurrentPhase (Plan_State plan))))) \<and>
         ex' = ex \<and> (\<exists>mk. tr' = tr @ mk \<and> list_all plain mk) \<and>
         Plan_Phases plan' = Plan_Phases plan \<and>
         State_CompletedPhases (Plan_State plan') = State_CompletedPhases (Plan_State plan) \<and>
         State_FailedPhases (Plan_State plan') = State_FailedPhases (Plan_State plan)"
proof -
  let ?a = "nat (State_CurrentPhase (Plan_State plan))"
  from r obtain plan0 tr0 plan1 where
    su: "Execute_startup E plan tr = (plan0, tr0)"
    and lp: "executeLoop E (phaseRange plan0) (plan0, ex, tr0) = (err, plan1, ex', tr')"
    and fin: "err \<noteq> None \<longrightarrow> plan' = plan1"
    by (rule Execute_cases)
  note s0 = Execute_startup_result[OF su]
  from s0(6) obtain mk where mk: "tr0 = tr @ mk" "list_all plain mk" by blast
  have rng: "phaseRange plan0 = ?a # [Suc ?a ..< length (Plan_Phases plan)]"
    using phaseRange_startup[OF su] lt by (simp add: upt_rec)
  have dm: "areDependenciesMet plan0 (Plan_Phases plan0 ! ?a) =
      areDependenciesMet plan (Plan_Phases plan ! ?a)"
    using areDependenciesMet_cong[of plan0 plan] s0(1,3) by simp
  {
    assume met: "areDependenciesMet plan (Plan_Phases plan ! ?a) = Inr True"
    from lp[unfolded rng] show "\<exists>mk rest. tr' = tr @ mk @ PhaseStarted ?a # rest \<and>
        list_all plain mk"
    proof (cases rule: executeLoop_Cons_cases)
      case (stop e s1)
      obtain p1 x1 t1 where s1: "s1 = (p1, x1, t1)" by (cases s1)
      from executeIteration_trace[OF stop(1)[unfolded s1]] met dm
      obtain rest where "t1 = tr0 @ PhaseStarted ?a # rest" by auto
      with stop(2) s1 mk show ?thesis by auto
    next
      case (go s1)
      obtain p1 x1 t1 where s1: "s1 = (p1, x1, t1)" by (cases s1)
      from executeIteration_trace[OF go(1)[unfolded s1]] met dm
      obtain rest where t1: "t1 = tr0 @ PhaseStarted ?a # rest" by auto
      from executeLoop_trace[OF go(2)[unfolded s1]] obtain n where "tr' = t1 @ n" by blast
      with t1 mk have "tr' = tr @ mk @ PhaseStarted ?a # (rest @ n)" by simp
      with mk(2) show ?thesis by blast
    qed
  }
  {
    assume unmet: "areDependenciesMet plan (Plan_Phases plan ! ?a) = Inr False"
    obtain e1 p1 x1 t1 where it: "executeIteration E ?a (plan0, ex, tr0) = (e1, p1, x1, t1)"
      by (cases "executeIteration E ?a (plan0, ex, tr0)")
    from it unmet dm have res: "e1 = Some (ErrDependenciesNotMet (Phase_Name (Plan_Phases plan0 ! ?a)))"
      "p1 = plan0" "x1 = ex" "t1 = tr0"
      by (cases rule: executeIteration_cases; simp)+
    with it lp[unfolded rng] have "err = e1" "plan1 = plan0" "ex' = ex" "tr' = tr0"
      by auto
    with res fin s0(1,3) mk
    show "err = Some (ErrDependenciesNotMet (Phase_Name (Plan_Phases plan ! ?a))) \<and>
         ex' = ex \<and> (\<exists>mk. tr' = tr @ mk \<and> list_all plain mk) \<and>
         Plan_Phases plan' = Plan_Phases plan \<and>
         State_CompletedPhases (Plan_State plan') = State_CompletedPhases (Plan_State plan) \<and>
         State_FailedPhases (Plan_State plan') = State_FailedPhases (Plan_State plan)"
      by auto
  }
qed

section \<open>Resuming\<close>




section \<open>The dependency gate\<close>

lemma executeLoop_append:
  "executeLoop E (pre @ rest) s =
     (case executeLoop E pre s of
        (Some e, s') \<Rightarrow> (Some e, s')
      | (None, s') \<Rightarrow> executeLoop E rest s')"
  by (induction pre arbitrary: s) (auto split: prod.splits option.splits)

lemma executeIteration_unmet:
  assumes "areDependenciesMet plan (Plan_Phases plan ! i) = Inr False"
  shows "executeIteration E i (plan, ex, tr) =
     (Some (ErrDependenciesNotMet (Phase_Name (Plan_Phases plan ! i))), plan, ex, tr)"
  using assms by (simp add: executeIteration_def)

lemma executeIteration_met:
  assumes "areDependenciesMet plan (Plan_Phases plan ! i) = Inr True"
  shows "\<exists>rest. snd (snd (snd (executeIteration E i (plan, ex, tr)))) = tr @ PhaseStarted i # rest"
proof -
  obtain e p x t where r: "executeIteration E i (plan, ex, tr) = (e, p, x, t)"
    by (cases "executeIteration E i (plan, ex, tr)")
  from executeIteration_trace[OF r] assms show ?thesis by (auto simp: r)
qed

lemma executeIteration_started:
  assumes "snd (snd (snd (executeIteration E i (plan, ex, tr)))) = tr @ PhaseStarted i # rest"
  shows "areDependenciesMet plan (Plan_Phases plan ! i) = Inr True"
proof -
  obtain e p x t where r: "executeIteration E i (plan, ex, tr) = (e, p, x, t)"
    by (cases "executeIteration E i (plan, ex, tr)")
  from executeIteration_trace[OF r] assms show ?thesis by (auto simp: r)
qed

text \<open>
  Claim C7. The loop body of \<open>Execute\<close> starts phase \<open>i\<close> only if every entry of its
  dependencies is the id or the name of a phase whose index is in \<open>completedPhases\<close>; a
  phase without dependencies passes the check. When the indices in \<open>completedPhases\<close> are
  valid, the check computes exactly this rule: the phase is started when the rule holds,
  and when it does not hold the body, the loop from there on (also after any phases done
  before) and \<open>Execute\<close> itself return \<open>dependencies not met for phase <name>\<close> and
  leave plan, executor and trace as they were, so the phase is not started.
\<close>

theorem dependencies_gate_phase:
  "((\<exists>rest. snd (snd (snd (executeIteration E i (plan, ex, tr)))) =
        tr @ PhaseStarted i # rest) \<longrightarrow>
      allDependenciesMatched plan (Plan_Phases plan ! i)) \<and>
   (Phase_Dependencies phase = [] \<longrightarrow> areDependenciesMet plan phase = Inr True) \<and>
   (indicesValid plan \<longrightarrow>
      areDependenciesMet plan phase = Inr (allDependenciesMatched plan phase) \<and>
      (allDependenciesMatched plan (Plan_Phases plan ! i) \<longrightarrow>
        (\<exists>rest. snd (snd (snd (executeIteration E i (plan, ex, tr)))) =
           tr @ PhaseStarted i # rest)) \<and>
      (\<not> allDependenciesMatched plan (Plan_Phases plan ! i) \<longrightarrow>
        executeIteration E i (plan, ex, tr) =
          (Some (ErrDependenciesNotMet (Phase_Name (Plan_Phases plan ! i))), plan, ex, tr) \<and>
        executeLoop E (i # is) (plan, ex, tr) =
          (Some (ErrDependenciesNotMet (Phase_Name (Plan_Phases plan ! i))), plan, ex, tr) \<and>
        (\<forall>pre s. executeLoop E pre s = (None, plan, ex, tr) \<longrightarrow>
           executeLoop E (pre @ i # is) s =
             (Some (ErrDependenciesNotMet (Phase_Name (Plan_Phases plan ! i))), plan, ex, tr))) \<and>
      (nat (State_CurrentPhase (Plan_State plan)) < length (Plan_Phases plan) \<and>
       \<not> allDependenciesMatched plan
           (Plan_Phases plan ! nat (State_CurrentPhase (Plan_State plan))) \<longrightarrow>
         fst (Execute E ex plan tr) =
           Some (ErrDependenciesNotMet
             (Phase_Name (Plan_Phases plan ! nat (State_CurrentPhase (Plan_State plan))))) \<and>
         started (snd (snd (snd (Execute E ex plan tr)))) = started tr))"
proof (intro conjI impI)
  assume "\<exists>rest. snd (snd (snd (executeIteration E i (plan, ex, tr)))) =
        tr @ PhaseStarted i # rest"
  then obtain rest where
    "snd (snd (snd (executeIteration E i (plan, ex, tr)))) = tr @ PhaseStarted i # rest"
    by blast
  from areDependenciesMet_Inr[OF executeIteration_started[OF this]]
  show "allDependenciesMatched plan (Plan_Phases plan ! i)" by simp
next
  assume "Phase_Dependencies phase = []"
  then show "areDependenciesMet plan phase = Inr True" by (rule areDependenciesMet_empty)
next
  assume v: "indicesValid plan"
  show "areDependenciesMet plan phase = Inr (allDependenciesMatched plan phase)"
    using v by (rule areDependenciesMet_valid)
next
  assume v: "indicesValid plan" and m: "allDependenciesMatched plan (Plan_Phases plan ! i)"
  from areDependenciesMet_valid[OF v, of "Plan_Phases plan ! i"] m
  have "areDependenciesMet plan (Plan_Phases plan ! i) = Inr True" by simp
  then show "\<exists>rest. snd (snd (snd (executeIteration E i (plan, ex, tr)))) =
           tr @ PhaseStarted i # rest"
    by (rule executeIteration_met)
next
  assume v: "indicesValid plan" and m: "\<not> allDependenciesMatched plan (Plan_Phases plan ! i)"
  from areDependenciesMet_valid[OF v, of "Plan_Phases plan ! i"] m
  have u: "areDependenciesMet plan (Plan_Phases plan ! i) = Inr False" by simp
  show it: "executeIteration E i (plan, ex, tr) =
          (Some (ErrDependenciesNotMet (Phase_Name (Plan_Phases plan ! i))), plan, ex, tr)"
    using u by (rule executeIteration_unmet)
  then show lp: "executeLoop E (i # is) (plan, ex, tr) =
          (Some (ErrDependenciesNotMet (Phase_Name (Plan_Phases plan ! i))), plan, ex, tr)"
    by simp
  show "\<forall>pre s. executeLoop E pre s = (None, plan, ex, tr) \<longrightarrow>
           executeLoop E (pre @ i # is) s =
             (Some (ErrDependenciesNotMet (Phase_Name (Plan_Phases plan ! i))), plan, ex, tr)"
    using lp by (simp add: executeLoop_append)
next
  let ?a = "nat (State_CurrentPhase (Plan_State plan))"
  assume v: "indicesValid plan"
    and h: "?a < length (Plan_Phases plan) \<and>
       \<not> allDependenciesMatched plan (Plan_Phases plan ! ?a)"
  from areDependenciesMet_valid[OF v, of "Plan_Phases plan ! ?a"] h
  have u: "areDependenciesMet plan (Plan_Phases plan ! ?a) = Inr False" by simp
  obtain e p x t where r: "Execute E ex plan tr = (e, p, x, t)"
    by (cases "Execute E ex plan tr")
  from Execute_first_phase(2)[OF r _ u] h obtain mk where
    e: "e = Some (ErrDependenciesNotMet (Phase_Name (Plan_Phases plan ! ?a)))"
    and mk: "t = tr @ mk" "list_all plain mk"
    by blast
  show "fst (Execute E ex plan tr) =
           Some (ErrDependenciesNotMet (Phase_Name (Plan_Phases plan ! ?a)))"
    by (simp add: r e)
  show "started (snd (snd (snd (Execute E ex plan tr)))) = started tr"
    using mk plain_trace[OF mk(2)] by (simp add: r)
qed

theorem dependencies_gate_phase_witness:
  "indicesValid blocked_plan \<and>
   \<not> allDependenciesMatched blocked_plan (Plan_Phases blocked_plan ! 0) \<and>
   fst (Execute (example_env True None) example_executor blocked_plan []) =
     Some (ErrDependenciesNotMet ''alpha'') \<and>
   started (snd (snd (snd (Execute (example_env True None) example_executor blocked_plan [])))) = [] \<and>
   indicesValid (fst (snd (Execute_upto (example_env True None) 1 example_executor
      two_phase_plan []))) \<and>
   allDependenciesMatched
     (fst (snd (Execute_upto (example_env True None) 1 example_executor two_phase_plan [])))
     (Plan_Phases two_phase_plan ! 1) \<and>
   areDependenciesMet
     (fst (snd (Execute_upto (example_env True None) 1 example_executor two_phase_plan [])))
     (Plan_Phases two_phase_plan ! 1) = Inr True"
proof -
  let ?mid = "fst (snd (Execute_upto (example_env True None) 1 example_executor
      two_phase_plan []))"
  have a: "indicesValid blocked_plan"
    "\<not> allDependenciesMatched blocked_plan (Plan_Phases blocked_plan ! 0)"
    "nat (State_CurrentPhase (Plan_State blocked_plan)) = 0"
    "length (Plan_Phases blocked_plan) = 1"
    "Phase_Name (Plan_Phases blocked_plan ! 0) = ''alpha''"
    by code_simp+
  have b: "indicesValid ?mid"
    "allDependenciesMatched ?mid (Plan_Phases two_phase_plan ! 1)"
    by code_simp+
  from dependencies_gate_phase[of "example_env True None" 0 blocked_plan example_executor "[]"
      "Plan_Phases blocked_plan ! 0" "[]"] a
  have c: "fst (Execute (example_env True None) example_executor blocked_plan []) =
     Some (ErrDependenciesNotMet ''alpha'')"
    "started (snd (snd (snd (Execute (example_env True None) example_executor
        blocked_plan [])))) = []"
    by simp_all
  from dependencies_gate_phase[of "example_env True None" 1 ?mid example_executor "[]"
      "Plan_Phases two_phase_plan ! 1" "[]"] b
  have d: "areDependenciesMet ?mid (Plan_Phases two_phase_plan ! 1) = Inr True"
    by simp
  from a b c d show ?thesis by simp
qed

section \<open>No overwrite within a run\<close>

lemma processFileMatch_exists:
  assumes "Plan_Manifest p = Some mf" and "FileExists mf (Clean (TrimSpace (m ! 2)))"
  shows "processFileMatch E n m (p, t, c) = (None, p, t, c)"
  using assms by (simp add: processFileMatch_def Let_def)

lemma processFileMatch_unsafe:
  assumes "unsafePath (Clean (TrimSpace (m ! 2)))"
  shows "processFileMatch E n m s = (None, s)"
proof -
  obtain p t c where s: "s = (p, t, c)" by (cases s)
  from assms show ?thesis
    unfolding s by (simp add: processFileMatch_def Let_def unsafePath_def)
qed

text \<open>
  Claim C4. During one call of \<open>Execute\<close>, the paths the manifest gains are exactly the
  files written, in order; no write goes to a path the manifest held at the call, and no
  file that was written is written to again. So if no path was twice in
  \<open>manifest.createdFiles\<close> before, none is afterwards; a manifest made by this call starts
  empty. An extraction whose cleaned path is in the manifest is rejected: it changes
  neither the plan nor the trace and raises no error.
\<close>

theorem created_files_written_once:
  assumes "Execute E ex plan tr = (err, plan', ex', tr')"
  shows "(\<exists>new. tr' = tr @ new \<and> createdPaths plan' = createdPaths plan @ written new \<and>
            list_all (\<lambda>p. p \<notin> set (createdPaths plan)) (attempted new) \<and> no_rewrite new) \<and>
     (distinct (createdPaths plan) \<longrightarrow> distinct (createdPaths plan')) \<and>
     (\<forall>n m p t c mf. Plan_Manifest p = Some mf \<and> FileExists mf (Clean (TrimSpace (m ! 2))) \<longrightarrow>
        processFileMatch E n m (p, t, c) = (None, p, t, c))"
proof -
  from Execute_trace[OF assms] obtain new where
    n: "tr' = tr @ new" "createdPaths plan' = createdPaths plan @ written new"
      "list_all (\<lambda>p. p \<notin> set (createdPaths plan)) (attempted new)" "no_rewrite new"
    by blast
  have "distinct (createdPaths plan')" if d: "distinct (createdPaths plan)"
  proof -
    have "set (written new) \<inter> set (createdPaths plan) = {}"
      using n(3) written_subset_attempted[of new] by (auto simp: list_all_iff)
    with d no_rewrite_distinct[OF n(4)] show ?thesis by (auto simp: n(2))
  qed
  with n processFileMatch_exists show ?thesis by blast
qed

theorem created_files_written_once_witness:
  "createdPaths two_phase_plan = [] \<and>
   createdPaths (fst (snd clean_run)) = [''app/main.py''] \<and>
   written (snd (snd (snd clean_run))) = [''app/main.py''] \<and>
   attempted (snd (snd (snd clean_run))) = [''app/main.py''] \<and>
   no_rewrite (snd (snd (snd clean_run))) \<and>
   distinct (createdPaths (fst (snd clean_run)))"
proof -
  have a: "createdPaths two_phase_plan = []"
    "attempted (snd (snd (snd clean_run))) = [''app/main.py'']"
    "written (snd (snd (snd clean_run))) = [''app/main.py'']"
    by code_simp+
  have "Execute (example_env True None) example_executor two_phase_plan [] =
      (fst clean_run, fst (snd clean_run), fst (snd (snd clean_run)), snd (snd (snd clean_run)))"
    by (simp add: clean_run_def)
  from created_files_written_once[OF this] a show ?thesis by simp
qed

section \<open>Paths outside the project\<close>

lemma filesExtend_created_safe:
  assumes "filesExtend plan plan' new"
  shows "list_all (\<lambda>p. p \<in> set (createdPaths plan) \<or> \<not> unsafePath p) (createdPaths plan')"
proof (cases "Plan_Manifest plan = None")
  case True
  with assms have "Plan_Manifest plan' = None" by (simp add: filesExtend_def)
  then show ?thesis by (simp add: createdPaths_def)
next
  case False
  with assms have "createdPaths plan' = createdPaths plan @ written new"
    "list_all (\<lambda>p. \<not> unsafePath p) (attempted new)"
    by (auto simp: filesExtend_def)
  with written_subset_attempted[of new] show ?thesis
    by (auto simp: list_all_iff)
qed

text \<open>
  Claim C5. Every file write of \<open>processFileBlocks\<close> goes to a cleaned path that starts
  neither with \<open>..\<close> nor with \<open>/\<close>, and so does every path it adds to the manifest or
  reports as created. A match whose cleaned path starts with \<open>..\<close> or \<open>/\<close> is passed
  over: it changes neither the plan nor the trace. The same holds for every file write of
  a whole call of \<open>Execute\<close>.
\<close>

theorem unsafe_paths_never_written:
  assumes "processFileBlocks E response plan phaseName tr = (created, err, plan', tr')"
  shows "(\<exists>new. tr' = tr @ new \<and>
            list_all (\<lambda>p. \<not> HasPrefix p ''..'' \<and> \<not> HasPrefix p ''/'') (attempted new) \<and>
            (\<forall>p c ok. WriteFile p c ok \<in> set new \<longrightarrow>
               \<not> HasPrefix p ''..'' \<and> \<not> HasPrefix p ''/'')) \<and>
     list_all (\<lambda>p. p \<in> set (createdPaths plan) \<or> \<not> unsafePath p) (createdPaths plan') \<and>
     list_all (\<lambda>p. \<not> unsafePath p) created \<and>
     (\<forall>n m s. unsafePath (Clean (TrimSpace (m ! 2))) \<longrightarrow> processFileMatch E n m s = (None, s)) \<and>
     (\<forall>x p0 t0 e1 p1 x1 t1. Execute E x p0 t0 = (e1, p1, x1, t1) \<longrightarrow>
        (\<exists>new. t1 = t0 @ new \<and> list_all (\<lambda>p. \<not> unsafePath p) (attempted new)))"
proof -
  from processFileBlocks_step[OF assms] obtain new where
    n: "tr' = tr @ new" "filesExtend plan plan' new"
    and c: "set created \<subseteq> {p. \<not> unsafePath p}"
    unfolding fileStep_def by auto
  from n(2) have safe: "list_all (\<lambda>p. \<not> unsafePath p) (attempted new)"
    by (simp add: filesExtend_def)
  hence s1: "list_all (\<lambda>p. \<not> HasPrefix p ''..'' \<and> \<not> HasPrefix p ''/'') (attempted new)"
    by (simp add: unsafePath_def)
  have s2: "\<forall>p c ok. WriteFile p c ok \<in> set new \<longrightarrow>
               \<not> HasPrefix p ''..'' \<and> \<not> HasPrefix p ''/''"
    using s1 WriteFile_in_attempted[of _ _ _ new] by (auto simp: list_all_iff)
  have s3: "list_all (\<lambda>p. \<not> unsafePath p) created"
    using c by (auto simp: list_all_iff)
  have s4: "\<exists>new. t1 = t0 @ new \<and> list_all (\<lambda>p. \<not> unsafePath p) (attempted new)"
    if "Execute E x p0 t0 = (e1, p1, x1, t1)" for x p0 t0 e1 p1 x1 t1
    using Execute_trace[OF that] by blast
  from n(1) s1 s2 s3 s4 filesExtend_created_safe[OF n(2)] processFileMatch_unsafe
  show ?thesis by blast
qed

theorem unsafe_paths_never_written_witness:
  "unsafePath (Clean (TrimSpace ''../escape.py'')) \<and>
   \<not> unsafePath (Clean (TrimSpace ''app/main.py'')) \<and>
   fst (processFileBlocks (example_env True None) example_answer one_phase_plan ''alpha'' []) =
     [''app/main.py'', ''app/main.py''] \<and>
   attempted (snd (snd (snd
     (processFileBlocks (example_env True None) example_answer one_phase_plan ''alpha'' [])))) =
     [''app/main.py'', ''app/main.py''] \<and>
   list_all (\<lambda>p. \<not> unsafePath p)
     (fst (processFileBlocks (example_env True None) example_answer one_phase_plan ''alpha'' []))"
proof -
  let ?r = "processFileBlocks (example_env True None) example_answer one_phase_plan ''alpha'' []"
  have a: "unsafePath (Clean (TrimSpace ''../escape.py''))"
    "\<not> unsafePath (Clean (TrimSpace ''app/main.py''))"
    "fst ?r = [''app/main.py'', ''app/main.py'']"
    "attempted (snd (snd (snd ?r))) = [''app/main.py'', ''app/main.py'']"
    by code_simp+
  have "?r = (fst ?r, fst (snd ?r), fst (snd (snd ?r)), snd (snd (snd ?r)))" by simp
  from unsafe_paths_never_written[OF this] a show ?thesis by simp
qed

section \<open>Saving and loading\<close>


lemma those_list_map_Some: "those_list (map Some xs) = Some xs"
  by (induction xs) simp_all


lemma marshalString_not_null [simp]: "marshalString s \<noteq> JNull"
  by (simp add: marshalString_def)



lemma field_found:
  "map_of (rev kvs) key = Some v \<Longrightarrow> v \<noteq> JNull \<Longrightarrow> field kvs key dec zero = dec v"
  by (cases v) (simp_all add: field_def)

lemma field_missing:
  "map_of (rev kvs) key = None \<Longrightarrow> field kvs key dec zero = Some zero"
  by (simp add: field_def)











end
